theory Spec2Isabelle
  imports
    Main
    "HOL-Library.Word"
    "HOL-Library.List_Lexorder"
    "HOL-Library.Multiset"
begin

section \<open>The manifest builder of src/dev/mod.ts\<close>

text \<open>
  The module scans the two directories \<^verbatim>\<open>routes\<close> and \<^verbatim>\<open>islands\<close> of a project
  (\<^verbatim>\<open>collectDir\<close>, \<^verbatim>\<open>collect\<close>), renders the registry module \<^verbatim>\<open>fresh.gen.ts\<close>
  (\<^verbatim>\<open>toImportSpecifier\<close>, \<^verbatim>\<open>generate\<close>) and regenerates it when the manifest changed
  since the previous run (\<^verbatim>\<open>dev\<close>, \<^verbatim>\<open>arraysEqual\<close>).
\<close>

subsection \<open>Strings\<close>

text \<open>
  A JavaScript string is a sequence of UTF-16 code units; comparison, \<^verbatim>\<open>split\<close>,
  \<^verbatim>\<open>replace\<close>, \<^verbatim>\<open>startsWith\<close> and the default \<^verbatim>\<open>sort\<close> all work on code units. The
  order on strings is the lexicographic one of \<^verbatim>\<open>HOL-Library.List_Lexorder\<close> over the
  unsigned order of 16-bit words, which is the order of the default \<^verbatim>\<open>Array.prototype.sort\<close>
  on strings.
\<close>

type_synonym code_unit = "16 word"
type_synonym jsstring = "code_unit list"

definition js :: "string \<Rightarrow> jsstring" where
  "js s = map of_char s"

definition CHAR_DOT :: code_unit where
  "CHAR_DOT = 46"

definition CHAR_FORWARD_SLASH :: code_unit where
  "CHAR_FORWARD_SLASH = 47"

definition CHAR_BACKWARD_SLASH :: code_unit where
  "CHAR_BACKWARD_SLASH = 92"

definition CHAR_QUOTE :: code_unit where
  "CHAR_QUOTE = 34"

definition CHAR_NEWLINE :: code_unit where
  "CHAR_NEWLINE = 10"

definition CHAR_BACKTICK :: code_unit where
  "CHAR_BACKTICK = 96"

text \<open>\<^verbatim>\<open>s.split(sep)\<close> for a separator of one code unit: never the empty array.\<close>

fun split_on :: "code_unit \<Rightarrow> jsstring \<Rightarrow> jsstring list" where
  "split_on sep [] = [[]]"
| "split_on sep (c # cs) =
     (if c = sep then [] # split_on sep cs
      else (case split_on sep cs of
              [] \<Rightarrow> [[c]]
            | s # ss \<Rightarrow> (c # s) # ss))"

text \<open>\<^verbatim>\<open>parts.join(sep)\<close>.\<close>

fun join_with :: "jsstring \<Rightarrow> jsstring list \<Rightarrow> jsstring" where
  "join_with sep [] = []"
| "join_with sep [s] = s"
| "join_with sep (s # t # ts) = s @ sep @ join_with sep (t # ts)"

text \<open>\<^verbatim>\<open>s.startsWith(p)\<close>.\<close>

definition startsWith :: "jsstring \<Rightarrow> jsstring \<Rightarrow> bool" where
  "startsWith s p = (take (length p) s = p)"

text \<open>\<^verbatim>\<open>s.replace(/\\/g, "/")\<close>: every backslash becomes a forward slash.\<close>

definition replace_backslashes :: "jsstring \<Rightarrow> jsstring" where
  "replace_backslashes s =
     map (\<lambda>c. if c = CHAR_BACKWARD_SLASH then CHAR_FORWARD_SLASH else c) s"

subsection \<open>Logical names (collectDir, lines 54-55)\<close>

text \<open>
  \<^verbatim>\<open>relative(dir, entry.path).split(".").slice(0, -1).join(".")\<close>, as a function of the
  relative path; \<^verbatim>\<open>slice(0, -1)\<close> drops the last element.
\<close>

definition fileNameWithoutExt :: "jsstring \<Rightarrow> jsstring" where
  "fileNameWithoutExt rel = join_with [CHAR_DOT] (butlast (split_on CHAR_DOT rel))"

lemma split_on_not_Nil: "split_on sep s \<noteq> []"
  by (induction s) (auto split: list.splits)

lemma split_on_append_sep:
  "split_on sep (a @ sep # b) = split_on sep a @ split_on sep b"
proof (induction a)
  case Nil
  show ?case by simp
next
  case (Cons c a)
  obtain s ss where s: "split_on sep a = s # ss"
    using split_on_not_Nil [of sep a] by (cases "split_on sep a") auto
  with Cons show ?case by simp
qed

lemma split_on_no_sep: "sep \<notin> set s \<Longrightarrow> split_on sep s = [s]"
  by (induction s) auto

lemma join_with_Cons_head:
  "join_with sep ((c # s) # ss) = c # join_with sep (s # ss)"
  by (cases ss) auto

lemma join_with_split_on: "join_with [sep] (split_on sep s) = s"
proof (induction s)
  case Nil
  show ?case by simp
next
  case (Cons c s)
  obtain t ts where t: "split_on sep s = t # ts"
    using split_on_not_Nil [of sep s] by (cases "split_on sep s") auto
  with Cons show ?case
    by (auto simp: join_with_Cons_head)
qed

text \<open>
  Claim C8. The logical name of a file is its relative path with exactly the final
  extension segment removed (split on the dot, drop the last component, rejoin with
  dots): a path \<open>name.ext\<close> whose \<open>ext\<close> holds no dot has the logical name \<open>name\<close>,
  whatever dots \<open>name\<close> itself holds. A path that holds no dot at all has the empty
  logical name: its only component is the one dropped.
\<close>

theorem fileNameWithoutExt_strips_final_extension:
  "(CHAR_DOT \<notin> set ext \<longrightarrow> fileNameWithoutExt (name @ CHAR_DOT # ext) = name)
   \<and> (CHAR_DOT \<notin> set path \<longrightarrow> fileNameWithoutExt path = [])"
proof (intro conjI impI)
  assume "CHAR_DOT \<notin> set ext"
  then have "split_on CHAR_DOT (name @ CHAR_DOT # ext) = split_on CHAR_DOT name @ [ext]"
    by (simp add: split_on_append_sep split_on_no_sep)
  then show "fileNameWithoutExt (name @ CHAR_DOT # ext) = name"
    by (simp add: fileNameWithoutExt_def butlast_append join_with_split_on)
next
  assume "CHAR_DOT \<notin> set path"
  then show "fileNameWithoutExt path = []"
    by (simp add: fileNameWithoutExt_def split_on_no_sep)
qed

theorem fileNameWithoutExt_strips_final_extension_witness:
  "fileNameWithoutExt (js ''a/foo.ts'') = js ''a/foo''
   \<and> fileNameWithoutExt (js ''a/foo.tsx'') = js ''a/foo''
   \<and> fileNameWithoutExt (js ''movies/[foo].json.ts'') = js ''movies/[foo].json''
   \<and> fileNameWithoutExt (js ''robots'') = []"
proof -
  have ts: "CHAR_DOT \<notin> set (js ''ts'')" and tsx: "CHAR_DOT \<notin> set (js ''tsx'')"
    and r: "CHAR_DOT \<notin> set (js ''robots'')"
    by (simp_all add: js_def CHAR_DOT_def)
  have a: "js ''a/foo.ts'' = js ''a/foo'' @ CHAR_DOT # js ''ts''"
    and b: "js ''a/foo.tsx'' = js ''a/foo'' @ CHAR_DOT # js ''tsx''"
    and c: "js ''movies/[foo].json.ts'' = js ''movies/[foo].json'' @ CHAR_DOT # js ''ts''"
    by (simp_all add: js_def CHAR_DOT_def)
  show ?thesis
    unfolding a b c
    using fileNameWithoutExt_strips_final_extension [of "js ''ts''" "js ''a/foo''" "js ''robots''"]
      fileNameWithoutExt_strips_final_extension [of "js ''tsx''" "js ''a/foo''" "js ''robots''"]
      fileNameWithoutExt_strips_final_extension [of "js ''ts''" "js ''movies/[foo].json''" "[]"]
      ts tsx r
    by simp
qed

subsection \<open>Import specifiers (toImportSpecifier, lines 88-94)\<close>

text \<open>
  \<^verbatim>\<open>posix.normalize\<close> is imported through \<^verbatim>\<open>./deps.ts\<close> from the path module of the Deno
  standard library; neither file is among the sources at hand. The functions
  \<open>normalizeString\<close> and \<open>posix_normalize\<close> below follow the standard library's
  \<^verbatim>\<open>normalizeString\<close> (\<^verbatim>\<open>path/_util.ts\<close>) and \<^verbatim>\<open>normalize\<close> (\<^verbatim>\<open>path/posix.ts\<close>) statement by
  statement. The loop there runs an index \<^verbatim>\<open>i\<close> over the path and remembers \<^verbatim>\<open>lastSlash\<close>;
  here the state carries the text \<^verbatim>\<open>path.slice(lastSlash + 1, i)\<close> read since the last
  separator as \<open>segment\<close>, so that \<^verbatim>\<open>lastSlash === i - 1\<close> is \<open>segment = []\<close> and
  \<^verbatim>\<open>i - lastSlash - 1\<close> is its length. Setting \<^verbatim>\<open>lastSlash = i; dots = 0\<close> is
  \<open>next_segment\<close>.
\<close>

definition isPosixPathSeparator :: "code_unit \<Rightarrow> bool" where
  "isPosixPathSeparator code = (code = CHAR_FORWARD_SLASH)"

text \<open>\<^verbatim>\<open>s.lastIndexOf(c)\<close> for one code unit: \<open>-1\<close> when there is none.\<close>

fun lastIndexOf :: "jsstring \<Rightarrow> code_unit \<Rightarrow> int" where
  "lastIndexOf [] c = - 1"
| "lastIndexOf (x # xs) c =
     (let r = lastIndexOf xs c in
      if r \<noteq> - 1 then r + 1 else if x = c then 0 else - 1)"

record ns_state =
  res :: jsstring
  lastSegmentLength :: int
  segment :: jsstring
  dots :: int
  code :: "code_unit option"

definition ns_init :: ns_state where
  "ns_init = \<lparr>res = [], lastSegmentLength = 0, segment = [], dots = 0, code = None\<rparr>"

definition next_segment :: "ns_state \<Rightarrow> ns_state" where
  "next_segment st = st\<lparr>segment := [], dots := 0\<rparr>"

definition above_root :: "bool \<Rightarrow> ns_state \<Rightarrow> ns_state" where
  "above_root allowAboveRoot st =
     next_segment
       (if allowAboveRoot
        then st\<lparr>res := (if length (res st) > 0
                         then res st @ [CHAR_FORWARD_SLASH] @ [CHAR_DOT, CHAR_DOT]
                         else [CHAR_DOT, CHAR_DOT]),
                lastSegmentLength := 2\<rparr>
        else st)"

definition on_separator :: "bool \<Rightarrow> ns_state \<Rightarrow> ns_state" where
  "on_separator allowAboveRoot st =
     (if segment st = [] \<or> dots st = 1 then next_segment st
      else if dots st = 2 then
        (if length (res st) < 2 \<or> lastSegmentLength st \<noteq> 2
            \<or> res st ! (length (res st) - 1) \<noteq> CHAR_DOT
            \<or> res st ! (length (res st) - 2) \<noteq> CHAR_DOT
         then
           (if length (res st) > 2 then
              (let lastSlashIndex = lastIndexOf (res st) CHAR_FORWARD_SLASH in
               if lastSlashIndex = - 1
               then next_segment (st\<lparr>res := [], lastSegmentLength := 0\<rparr>)
               else
                 (let res' = take (nat lastSlashIndex) (res st) in
                  next_segment
                    (st\<lparr>res := res',
                        lastSegmentLength :=
                          int (length res') - 1 - lastIndexOf res' CHAR_FORWARD_SLASH\<rparr>)))
            else if length (res st) = 2 \<or> length (res st) = 1
            then next_segment (st\<lparr>res := [], lastSegmentLength := 0\<rparr>)
            else above_root allowAboveRoot st)
         else above_root allowAboveRoot st)
      else
        next_segment
          (st\<lparr>res := (if length (res st) > 0
                        then res st @ [CHAR_FORWARD_SLASH] @ segment st
                        else segment st),
              lastSegmentLength := int (length (segment st))\<rparr>))"

definition on_code :: "bool \<Rightarrow> code_unit \<Rightarrow> ns_state \<Rightarrow> ns_state" where
  "on_code allowAboveRoot c st =
     (if isPosixPathSeparator c then on_separator allowAboveRoot st
      else if c = CHAR_DOT \<and> dots st \<noteq> - 1
      then st\<lparr>segment := segment st @ [c], dots := dots st + 1\<rparr>
      else st\<lparr>segment := segment st @ [c], dots := - 1\<rparr>)"

fun normalizeString_loop :: "bool \<Rightarrow> jsstring \<Rightarrow> ns_state \<Rightarrow> ns_state" where
  "normalizeString_loop allowAboveRoot [] st =
     (case code st of
        None \<Rightarrow> on_code allowAboveRoot CHAR_FORWARD_SLASH st
      | Some c \<Rightarrow>
          if isPosixPathSeparator c then st
          else on_code allowAboveRoot CHAR_FORWARD_SLASH st)"
| "normalizeString_loop allowAboveRoot (c # cs) st =
     normalizeString_loop allowAboveRoot cs (on_code allowAboveRoot c (st\<lparr>code := Some c\<rparr>))"

definition normalizeString :: "jsstring \<Rightarrow> bool \<Rightarrow> jsstring" where
  "normalizeString path allowAboveRoot = res (normalizeString_loop allowAboveRoot path ns_init)"

definition posix_normalize :: "jsstring \<Rightarrow> jsstring" where
  "posix_normalize path =
     (if length path = 0 then [CHAR_DOT]
      else
        (let isAbsolute = (path ! 0 = CHAR_FORWARD_SLASH);
             trailingSeparator = (path ! (length path - 1) = CHAR_FORWARD_SLASH);
             path1 = normalizeString path (\<not> isAbsolute);
             path2 = (if length path1 = 0 \<and> \<not> isAbsolute then [CHAR_DOT] else path1);
             path3 = (if length path2 > 0 \<and> trailingSeparator
                      then path2 @ [CHAR_FORWARD_SLASH] else path2)
         in if isAbsolute then CHAR_FORWARD_SLASH # path3 else path3))"

text \<open>The function of lines 88-94.\<close>

definition toImportSpecifier :: "jsstring \<Rightarrow> jsstring" where
  "toImportSpecifier file =
     (let specifier = replace_backslashes (posix_normalize file) in
      if \<not> startsWith specifier [CHAR_DOT] then [CHAR_DOT, CHAR_FORWARD_SLASH] @ specifier
      else specifier)"

text \<open>
  Claim C7, as the code has it. For every path, the import specifier holds no
  backslash. The test of line 90 is for a leading dot, not for the markers \<open>./\<close> and
  \<open>../\<close>: the specifier begins with \<open>./\<close> whenever the normalized path does not begin with
  a dot; when the normalized path begins with a dot, the specifier is that path with
  every backslash replaced, without any prefix. So every specifier begins with a dot,
  but a name such as \<^verbatim>\<open>.hidden/x.ts\<close> gets no \<open>./\<close>. The input may use either separator
  convention.
\<close>

theorem toImportSpecifier_forward_slashes:
  "CHAR_BACKWARD_SLASH \<notin> set (toImportSpecifier file)
   \<and> (\<not> startsWith (posix_normalize file) [CHAR_DOT]
        \<longrightarrow> startsWith (toImportSpecifier file) [CHAR_DOT, CHAR_FORWARD_SLASH])
   \<and> (startsWith (posix_normalize file) [CHAR_DOT]
        \<longrightarrow> toImportSpecifier file = replace_backslashes (posix_normalize file))
   \<and> startsWith (toImportSpecifier file) [CHAR_DOT]"
proof -
  let ?s = "replace_backslashes (posix_normalize file)"
  have no: "CHAR_BACKWARD_SLASH \<notin> set ?s"
    by (auto simp: replace_backslashes_def CHAR_BACKWARD_SLASH_def CHAR_FORWARD_SLASH_def)
  have same: "startsWith ?s [CHAR_DOT] = startsWith (posix_normalize file) [CHAR_DOT]"
    by (cases "posix_normalize file")
      (auto simp: startsWith_def replace_backslashes_def CHAR_DOT_def
        CHAR_BACKWARD_SLASH_def CHAR_FORWARD_SLASH_def)
  show ?thesis
  proof (cases "startsWith ?s [CHAR_DOT]")
    case True
    with no same show ?thesis
      by (simp add: toImportSpecifier_def)
  next
    case False
    with no same show ?thesis
      by (simp add: toImportSpecifier_def startsWith_def CHAR_DOT_def
          CHAR_BACKWARD_SLASH_def CHAR_FORWARD_SLASH_def)
  qed
qed

text \<open>The equations that evaluate the functions on a given path.\<close>

lemmas normalize_eval =
  posix_normalize_def normalizeString_def ns_init_def on_code_def on_separator_def
  above_root_def next_segment_def isPosixPathSeparator_def Let_def

lemmas specifier_eval =
  normalize_eval toImportSpecifier_def startsWith_def replace_backslashes_def

lemmas char_eval =
  js_def CHAR_DOT_def CHAR_FORWARD_SLASH_def CHAR_BACKWARD_SLASH_def

theorem toImportSpecifier_forward_slashes_witness:
  "\<not> startsWith (posix_normalize (js ''routes'' @ CHAR_BACKWARD_SLASH # js ''api''
        @ CHAR_BACKWARD_SLASH # js ''get_only.ts'')) [CHAR_DOT]
   \<and> toImportSpecifier (js ''routes'' @ CHAR_BACKWARD_SLASH # js ''api''
        @ CHAR_BACKWARD_SLASH # js ''get_only.ts'') = js ''./routes/api/get_only.ts''
   \<and> startsWith (js ''./routes/api/get_only.ts'') [CHAR_DOT, CHAR_FORWARD_SLASH]
   \<and> CHAR_BACKWARD_SLASH \<notin> set (js ''./routes/api/get_only.ts'')
   \<and> startsWith (posix_normalize (js ''../lib'' @ CHAR_BACKWARD_SLASH # js ''x.ts'')) [CHAR_DOT]
   \<and> toImportSpecifier (js ''../lib'' @ CHAR_BACKWARD_SLASH # js ''x.ts'') = js ''../lib/x.ts''"
proof -
  let ?file = "js ''routes'' @ CHAR_BACKWARD_SLASH # js ''api''
        @ CHAR_BACKWARD_SLASH # js ''get_only.ts''"
  let ?up = "js ''../lib'' @ CHAR_BACKWARD_SLASH # js ''x.ts''"
  have n: "\<not> startsWith (posix_normalize ?file) [CHAR_DOT]"
    by (simp add: normalize_eval startsWith_def char_eval)
  have v: "toImportSpecifier ?file = js ''./routes/api/get_only.ts''"
    by (simp add: specifier_eval char_eval)
  have d: "startsWith (posix_normalize ?up) [CHAR_DOT]"
    by (simp add: normalize_eval startsWith_def char_eval)
  have r: "replace_backslashes (posix_normalize ?up) = js ''../lib/x.ts''"
    by (simp add: specifier_eval char_eval)
  show ?thesis
    using toImportSpecifier_forward_slashes [of ?file] toImportSpecifier_forward_slashes [of ?up]
      n v d r
    by simp
qed

subsection \<open>What posix.normalize computes\<close>

text \<open>
  \<open>normalizeString\<close> splits the path at the forward slashes and runs the segments through
  a stack: an empty segment and \<open>.\<close> are dropped, \<open>..\<close> removes the segment before it
  unless there is none or it is \<open>..\<close> itself, every other segment is kept.
\<close>

definition dotdot :: jsstring where
  "dotdot = [CHAR_DOT, CHAR_DOT]"

definition push_segment :: "bool \<Rightarrow> jsstring list \<Rightarrow> jsstring \<Rightarrow> jsstring list" where
  "push_segment allowAboveRoot st s =
     (if s = [] \<or> s = [CHAR_DOT] then st
      else if s = dotdot then
        (if st \<noteq> [] \<and> last st \<noteq> dotdot then butlast st
         else if allowAboveRoot then st @ [dotdot] else st)
      else st @ [s])"

definition dots_of :: "jsstring \<Rightarrow> int" where
  "dots_of seg = (if set seg \<subseteq> {CHAR_DOT} then int (length seg) else - 1)"

definition last_length :: "jsstring list \<Rightarrow> int" where
  "last_length st = (if st = [] then 0 else int (length (last st)))"

definition abs_state :: "jsstring list \<Rightarrow> jsstring \<Rightarrow> code_unit option \<Rightarrow> ns_state" where
  "abs_state st seg k =
     \<lparr>res = join_with [CHAR_FORWARD_SLASH] st, lastSegmentLength = last_length st,
      segment = seg, dots = dots_of seg, code = k\<rparr>"

definition stack_ok :: "jsstring list \<Rightarrow> bool" where
  "stack_ok st = (\<forall>s \<in> set st. s \<noteq> [] \<and> CHAR_FORWARD_SLASH \<notin> set s)"

lemma join_with_snoc:
  "join_with sep (xs @ [s]) = (if xs = [] then s else join_with sep xs @ sep @ s)"
  by (induction sep xs rule: join_with.induct) auto

lemma join_with_Nil_iff:
  "\<forall>s \<in> set st. s \<noteq> [] \<Longrightarrow> join_with sep st = [] \<longleftrightarrow> st = []"
  by (induction sep st rule: join_with.induct) auto

lemma set_join_with:
  "set (join_with sep st) \<subseteq> (\<Union>s \<in> set st. set s) \<union> set sep"
  by (induction sep st rule: join_with.induct) auto

lemma lastIndexOf_none: "c \<notin> set s \<Longrightarrow> lastIndexOf s c = - 1"
  by (induction s) (auto simp: Let_def)

lemma lastIndexOf_ge: "lastIndexOf s c \<ge> - 1"
  by (induction s) (auto simp: Let_def)

lemma lastIndexOf_last: "c \<notin> set b \<Longrightarrow> lastIndexOf (a @ c # b) c = int (length a)"
  by (induction a) (auto simp: Let_def lastIndexOf_none)

lemma dots_of_simps [simp]:
  "dots_of [] = 0"
  "dots_of (seg @ [c]) = (if c = CHAR_DOT \<and> dots_of seg \<noteq> - 1 then dots_of seg + 1 else - 1)"
  by (auto simp: dots_of_def)

lemma dots_of_1: "dots_of seg = 1 \<longleftrightarrow> seg = [CHAR_DOT]"
  by (cases seg; cases "tl seg") (auto simp: dots_of_def split: if_splits)

lemma dots_of_2: "dots_of seg = 2 \<longleftrightarrow> seg = dotdot"
proof (cases seg)
  case Nil
  then show ?thesis by (simp add: dotdot_def)
next
  case (Cons a s1)
  show ?thesis
  proof (cases s1)
    case Nil
    with Cons show ?thesis by (auto simp: dots_of_def dotdot_def)
  next
    case (Cons b s2)
    with \<open>seg = a # s1\<close> show ?thesis
      by (cases s2) (auto simp: dots_of_def dotdot_def split: if_splits)
  qed
qed


lemma stack_ok_snoc [simp]:
  "stack_ok (st @ [s]) \<longleftrightarrow> stack_ok st \<and> s \<noteq> [] \<and> CHAR_FORWARD_SLASH \<notin> set s"
  by (auto simp: stack_ok_def)

lemma stack_ok_Nil [simp]: "stack_ok []"
  by (simp add: stack_ok_def)

lemma join_stack_Nil_iff: "stack_ok st \<Longrightarrow> join_with sep st = [] \<longleftrightarrow> st = []"
  by (rule join_with_Nil_iff) (simp add: stack_ok_def)

lemma lastIndexOf_join:
  assumes "stack_ok (init @ [s])"
  shows "lastIndexOf (join_with [CHAR_FORWARD_SLASH] (init @ [s])) CHAR_FORWARD_SLASH
         = (if init = [] then - 1 else int (length (join_with [CHAR_FORWARD_SLASH] init)))"
  using assms by (simp add: join_with_snoc lastIndexOf_none lastIndexOf_last)

lemma last_length_lastIndexOf:
  assumes "stack_ok st"
  shows "int (length (join_with [CHAR_FORWARD_SLASH] st)) - 1
           - lastIndexOf (join_with [CHAR_FORWARD_SLASH] st) CHAR_FORWARD_SLASH
         = last_length st"
proof (cases st rule: rev_cases)
  case Nil
  then show ?thesis by (simp add: last_length_def)
next
  case (snoc init s)
  then show ?thesis
    using assms lastIndexOf_join [of init s]
    by (simp add: last_length_def) (simp add: join_with_snoc)
qed

lemma on_separator_skip:
  assumes "seg = [] \<or> seg = [CHAR_DOT]"
  shows "on_separator a (abs_state st seg k) = abs_state (push_segment a st seg) [] k"
  using assms
  by (auto simp: on_separator_def abs_state_def next_segment_def push_segment_def dots_of_def)

lemma on_separator_ordinary:
  assumes "stack_ok st" and "seg \<noteq> []" and "seg \<noteq> [CHAR_DOT]" and "seg \<noteq> dotdot"
  shows "on_separator a (abs_state st seg k) = abs_state (push_segment a st seg) [] k"
proof -
  have d: "dots_of seg \<noteq> 1" "dots_of seg \<noteq> 2"
    using assms by (simp_all add: dots_of_1 dots_of_2)
  have "on_separator a (abs_state st seg k) =
        next_segment ((abs_state st seg k)
          \<lparr>res := join_with [CHAR_FORWARD_SLASH] (st @ [seg]),
           lastSegmentLength := int (length seg)\<rparr>)"
    using assms(1,2) d
    by (simp add: on_separator_def abs_state_def join_with_snoc join_stack_Nil_iff)
  then show ?thesis
    using assms(2-4)
    by (simp add: abs_state_def next_segment_def push_segment_def last_length_def)
qed

lemma on_separator_dotdot_empty:
  "on_separator a (abs_state [] dotdot k) = abs_state (push_segment a [] dotdot) [] k"
  by (simp add: on_separator_def abs_state_def next_segment_def push_segment_def
      above_root_def last_length_def dots_of_def dotdot_def)

lemma on_separator_dotdot_above:
  assumes "stack_ok (init @ [dotdot])"
  shows "on_separator a (abs_state (init @ [dotdot]) dotdot k)
         = abs_state (push_segment a (init @ [dotdot]) dotdot) [] k"
proof -
  let ?res = "join_with [CHAR_FORWARD_SLASH] (init @ [dotdot])"
  have e: "\<exists>u. ?res = u @ [CHAR_DOT, CHAR_DOT]"
    by (simp add: join_with_snoc dotdot_def)
  then obtain u where u: "?res = u @ [CHAR_DOT, CHAR_DOT]" ..
  have c: "\<not> (length ?res < 2 \<or> last_length (init @ [dotdot]) \<noteq> 2
            \<or> ?res ! (length ?res - 1) \<noteq> CHAR_DOT \<or> ?res ! (length ?res - 2) \<noteq> CHAR_DOT)"
    unfolding u by (simp add: last_length_def dotdot_def nth_append)
  have "on_separator a (abs_state (init @ [dotdot]) dotdot k)
        = above_root a (abs_state (init @ [dotdot]) dotdot k)"
    using c by (simp add: on_separator_def abs_state_def dots_of_def dotdot_def)
  also have "\<dots> = abs_state (push_segment a (init @ [dotdot]) dotdot) [] k"
  proof -
    have j: "join_with [CHAR_FORWARD_SLASH] ((init @ [dotdot]) @ [dotdot])
             = ?res @ [CHAR_FORWARD_SLASH] @ dotdot"
      by (subst join_with_snoc) simp
    have n: "?res \<noteq> []"
      using u by simp
    have p: "push_segment a (init @ [dotdot]) dotdot
             = (if a then (init @ [dotdot]) @ [dotdot] else init @ [dotdot])"
      by (simp add: push_segment_def dotdot_def)
    show ?thesis
      unfolding p using n
      by (simp add: above_root_def abs_state_def next_segment_def last_length_def j
          del: append_assoc) (simp add: dotdot_def)
  qed
  finally show ?thesis .
qed

lemma on_separator_dotdot_pop:
  assumes "stack_ok (init @ [s])" and "s \<noteq> dotdot"
  shows "on_separator a (abs_state (init @ [s]) dotdot k)
         = abs_state (push_segment a (init @ [s]) dotdot) [] k"
proof -
  let ?res = "join_with [CHAR_FORWARD_SLASH] (init @ [s])"
  have ok: "stack_ok init" "s \<noteq> []" "CHAR_FORWARD_SLASH \<notin> set s"
    using assms(1) by simp_all
  obtain u where u: "?res = u @ s"
    by (cases "init = []") (simp_all add: join_with_snoc)
  have c: "length ?res < 2 \<or> last_length (init @ [s]) \<noteq> 2
            \<or> ?res ! (length ?res - 1) \<noteq> CHAR_DOT \<or> ?res ! (length ?res - 2) \<noteq> CHAR_DOT"
  proof (cases "length s = 2")
    case False
    then show ?thesis by (simp add: last_length_def)
  next
    case True
    then obtain x y where s: "s = [x, y]"
      by (cases s; cases "tl s") auto
    with assms(2) have "x \<noteq> CHAR_DOT \<or> y \<noteq> CHAR_DOT"
      by (auto simp: dotdot_def)
    moreover have "?res ! (length ?res - 1) = y" "?res ! (length ?res - 2) = x"
      unfolding u by (simp_all add: s nth_append)
    ultimately show ?thesis
      by auto
  qed
  have p: "push_segment a (init @ [s]) dotdot = init"
    using assms(2) by (simp add: push_segment_def dotdot_def)
  show ?thesis
  proof (cases "init = []")
    case True
    then have r: "?res = s" by simp
    have "on_separator a (abs_state (init @ [s]) dotdot k)
          = next_segment ((abs_state (init @ [s]) dotdot k)\<lparr>res := [], lastSegmentLength := 0\<rparr>)"
      using c ok(2,3) True
      apply (simp add: on_separator_def abs_state_def dots_of_def dotdot_def lastIndexOf_none
          Let_def)
      apply (cases s; cases "tl s"; cases "tl (tl s)")
      apply auto
      done
    moreover have "push_segment a [s] dotdot = []"
      using p True by simp
    ultimately show ?thesis
      using True by (simp add: abs_state_def next_segment_def last_length_def)
  next
    case False
    have r: "?res = join_with [CHAR_FORWARD_SLASH] init @ CHAR_FORWARD_SLASH # s"
      using False by (simp add: join_with_snoc)
    have n: "join_with [CHAR_FORWARD_SLASH] init \<noteq> []"
      using False ok(1) by (simp add: join_stack_Nil_iff)
    have len: "length ?res > 2"
      using n ok(2) unfolding r by (cases "join_with [CHAR_FORWARD_SLASH] init"; cases s) auto
    have li: "lastIndexOf ?res CHAR_FORWARD_SLASH = int (length (join_with [CHAR_FORWARD_SLASH] init))"
      unfolding r using ok(3) by (simp add: lastIndexOf_last)
    have "on_separator a (abs_state (init @ [s]) dotdot k)
          = next_segment ((abs_state (init @ [s]) dotdot k)
              \<lparr>res := join_with [CHAR_FORWARD_SLASH] init,
               lastSegmentLength := last_length init\<rparr>)"
      using c len li last_length_lastIndexOf [OF ok(1)]
      by (simp add: on_separator_def abs_state_def dots_of_def dotdot_def Let_def r)
    then show ?thesis
      by (simp add: p abs_state_def next_segment_def)
  qed
qed

lemma on_separator_abs:
  assumes "stack_ok st"
  shows "on_separator a (abs_state st seg k) = abs_state (push_segment a st seg) [] k"
proof (cases "seg = [] \<or> seg = [CHAR_DOT]")
  case True
  then show ?thesis by (rule on_separator_skip)
next
  case False
  show ?thesis
  proof (cases "seg = dotdot")
    case ord: False
    with False assms show ?thesis
      by (intro on_separator_ordinary) simp_all
  next
    case True
    show ?thesis
    proof (cases st rule: rev_cases)
      case Nil
      with True show ?thesis by (simp add: on_separator_dotdot_empty)
    next
      case (snoc init s)
      with True assms show ?thesis
        by (cases "s = dotdot")
          (simp_all add: on_separator_dotdot_above on_separator_dotdot_pop)
    qed
  qed
qed


lemma dotdot_ok [simp]: "dotdot \<noteq> []" "CHAR_FORWARD_SLASH \<notin> set dotdot"
  by (simp_all add: dotdot_def CHAR_DOT_def CHAR_FORWARD_SLASH_def)

lemma dotdot_neq [simp]: "dotdot \<noteq> [CHAR_DOT]" "[CHAR_DOT] \<noteq> dotdot"
  by (simp_all add: dotdot_def)

lemma stack_ok_butlast: "stack_ok st \<Longrightarrow> stack_ok (butlast st)"
  by (auto simp: stack_ok_def dest: in_set_butlastD)

lemma stack_ok_dotdot: "stack_ok st \<Longrightarrow> stack_ok (st @ [dotdot])"
  by simp

lemma push_segment_cases:
  "push_segment a st s = st \<or> push_segment a st s = butlast st
   \<or> push_segment a st s = st @ [dotdot] \<or> (s \<noteq> [] \<and> push_segment a st s = st @ [s])"
  by (simp add: push_segment_def)

lemma push_segment_ok:
  assumes "stack_ok st" and "CHAR_FORWARD_SLASH \<notin> set s"
  shows "stack_ok (push_segment a st s)"
  using push_segment_cases [of a st s] assms stack_ok_butlast [of st] stack_ok_dotdot [of st]
  by (elim disjE conjE) simp_all

lemma on_code_separator:
  "stack_ok st \<Longrightarrow>
   on_code a CHAR_FORWARD_SLASH (abs_state st seg k) = abs_state (push_segment a st seg) [] k"
  by (simp add: on_code_def isPosixPathSeparator_def on_separator_abs)

lemma on_code_other:
  "c \<noteq> CHAR_FORWARD_SLASH \<Longrightarrow> on_code a c (abs_state st seg k) = abs_state st (seg @ [c]) k"
  by (simp add: on_code_def isPosixPathSeparator_def abs_state_def)

lemma abs_state_code: "(abs_state st seg k)\<lparr>code := k'\<rparr> = abs_state st seg k'"
  by (simp add: abs_state_def)

lemma normalizeString_loop_abs:
  assumes "stack_ok st" and "CHAR_FORWARD_SLASH \<notin> set seg"
    and "k = Some CHAR_FORWARD_SLASH \<longrightarrow> seg = []"
  shows "res (normalizeString_loop a cs (abs_state st seg k))
         = join_with [CHAR_FORWARD_SLASH]
             (foldl (push_segment a) st (split_on CHAR_FORWARD_SLASH (seg @ cs)))"
  using assms
proof (induction cs arbitrary: st seg k)
  case Nil
  have e: "res (abs_state (push_segment a st seg) [] k)
           = join_with [CHAR_FORWARD_SLASH] (push_segment a st seg)"
    by (simp add: abs_state_def)
  have "res (normalizeString_loop a [] (abs_state st seg k))
        = join_with [CHAR_FORWARD_SLASH] (push_segment a st seg)"
  proof (cases "k = Some CHAR_FORWARD_SLASH")
    case True
    with Nil.prems(3) have "seg = []" by simp
    with True show ?thesis
      by (simp add: abs_state_def isPosixPathSeparator_def push_segment_def)
  next
    case False
    then have "normalizeString_loop a [] (abs_state st seg k)
               = on_code a CHAR_FORWARD_SLASH (abs_state st seg k)"
      by (cases k) (simp_all add: abs_state_def isPosixPathSeparator_def)
    then show ?thesis
      using Nil.prems(1) by (simp add: on_code_separator e)
  qed
  then show ?case
    using Nil.prems(2) by (simp add: split_on_no_sep)
next
  case (Cons c cs)
  show ?case
  proof (cases "c = CHAR_FORWARD_SLASH")
    case True
    have "res (normalizeString_loop a (c # cs) (abs_state st seg k))
          = res (normalizeString_loop a cs (abs_state (push_segment a st seg) [] (Some c)))"
      using True Cons.prems(1) by (simp add: abs_state_code on_code_separator)
    also have "\<dots> = join_with [CHAR_FORWARD_SLASH]
             (foldl (push_segment a) (push_segment a st seg) (split_on CHAR_FORWARD_SLASH ([] @ cs)))"
      using Cons.prems by (intro Cons.IH push_segment_ok) simp_all
    finally show ?thesis
      using True Cons.prems(2) by (simp add: split_on_append_sep split_on_no_sep)
  next
    case False
    have "res (normalizeString_loop a (c # cs) (abs_state st seg k))
          = res (normalizeString_loop a cs (abs_state st (seg @ [c]) (Some c)))"
      using False by (simp add: abs_state_code on_code_other)
    also have "\<dots> = join_with [CHAR_FORWARD_SLASH]
             (foldl (push_segment a) st (split_on CHAR_FORWARD_SLASH ((seg @ [c]) @ cs)))"
      using Cons.prems False by (intro Cons.IH) simp_all
    finally show ?thesis
      by simp
  qed
qed

definition segments :: "bool \<Rightarrow> jsstring \<Rightarrow> jsstring list" where
  "segments a path = foldl (push_segment a) [] (split_on CHAR_FORWARD_SLASH path)"

lemma normalizeString_segments:
  "normalizeString path a = join_with [CHAR_FORWARD_SLASH] (segments a path)"
proof -
  have "ns_init = abs_state [] [] None"
    by (simp add: ns_init_def abs_state_def last_length_def)
  then show ?thesis
    using normalizeString_loop_abs [of "[]" "[]" None a path]
    by (simp add: normalizeString_def segments_def)
qed

lemma split_on_no_sep_in: "\<forall>s \<in> set (split_on sep p). sep \<notin> set s"
proof (induction p)
  case Nil
  show ?case by simp
next
  case (Cons c p)
  obtain t ts where t: "split_on sep p = t # ts"
    using split_on_not_Nil [of sep p] by (cases "split_on sep p") auto
  with Cons show ?case by auto
qed

lemma foldl_push_ok:
  "stack_ok st \<Longrightarrow> \<forall>s \<in> set ss. CHAR_FORWARD_SLASH \<notin> set s \<Longrightarrow>
   stack_ok (foldl (push_segment a) st ss)"
  by (induction ss arbitrary: st) (simp_all add: push_segment_ok)

lemma segments_ok: "stack_ok (segments a path)"
  unfolding segments_def by (intro foldl_push_ok split_on_no_sep_in) simp

lemma posix_normalize_relative:
  assumes "p \<noteq> []" and "hd p \<noteq> CHAR_FORWARD_SLASH"
  shows "posix_normalize p =
           (if segments True p = [] then [CHAR_DOT]
            else join_with [CHAR_FORWARD_SLASH] (segments True p))
           @ (if last p = CHAR_FORWARD_SLASH then [CHAR_FORWARD_SLASH] else [])"
proof -
  have h: "p ! 0 = hd p" and l: "p ! (length p - Suc 0) = last p"
    using assms(1) by (simp_all add: hd_conv_nth last_conv_nth)
  show ?thesis
    using assms
    by (simp add: posix_normalize_def Let_def h l normalizeString_segments
        join_stack_Nil_iff [OF segments_ok])
qed


definition ordinary :: "jsstring \<Rightarrow> bool" where
  "ordinary s = (s \<noteq> [] \<and> s \<noteq> [CHAR_DOT] \<and> s \<noteq> dotdot \<and> CHAR_FORWARD_SLASH \<notin> set s)"

inductive nf :: "jsstring list \<Rightarrow> bool" where
  nf_Nil: "nf []"
| nf_ordinary: "nf st \<Longrightarrow> ordinary s \<Longrightarrow> nf (st @ [s])"
| nf_above: "nf st \<Longrightarrow> st = [] \<or> last st = dotdot \<Longrightarrow> nf (st @ [dotdot])"

lemma nf_butlast: "nf st \<Longrightarrow> nf (butlast st)"
  by (cases st rule: nf.cases) (auto intro: nf_Nil)

lemma nf_push_segment:
  assumes "nf st" and "CHAR_FORWARD_SLASH \<notin> set s"
  shows "nf (push_segment True st s)"
proof (cases "s = [] \<or> s = [CHAR_DOT]")
  case True
  with assms(1) show ?thesis by (auto simp: push_segment_def)
next
  case False
  show ?thesis
  proof (cases "s = dotdot")
    case True
    have "nf (st @ [dotdot])" if "st = [] \<or> last st = dotdot"
      using assms(1) that by (rule nf_above)
    moreover have "nf (butlast st)"
      using assms(1) by (rule nf_butlast)
    ultimately show ?thesis
      unfolding True push_segment_def by (simp del: butlast.simps)
  next
    case nd: False
    with False assms(2) have "ordinary s"
      by (simp add: ordinary_def)
    with assms(1) False nd show ?thesis
      by (auto simp: push_segment_def intro: nf_ordinary)
  qed
qed

lemma nf_foldl:
  "nf st \<Longrightarrow> \<forall>s \<in> set ss. CHAR_FORWARD_SLASH \<notin> set s \<Longrightarrow> nf (foldl (push_segment True) st ss)"
  by (induction ss arbitrary: st) (simp_all add: nf_push_segment)

lemma nf_segments: "nf (segments True path)"
  unfolding segments_def by (intro nf_foldl split_on_no_sep_in nf_Nil)

lemma nf_foldl_id: "nf st \<Longrightarrow> foldl (push_segment True) [] st = st"
proof (induction st rule: nf.induct)
  case nf_Nil
  show ?case by simp
next
  case (nf_ordinary st s)
  then show ?case by (simp add: push_segment_def ordinary_def)
next
  case (nf_above st)
  then show ?case by (auto simp: push_segment_def dotdot_def)
qed

lemma split_on_join_with:
  "stack_ok st \<Longrightarrow> st \<noteq> [] \<Longrightarrow>
   split_on CHAR_FORWARD_SLASH (join_with [CHAR_FORWARD_SLASH] st) = st"
proof (induction "[CHAR_FORWARD_SLASH]" st rule: join_with.induct)
  case 1
  then show ?case by simp
next
  case (2 s)
  then show ?case by (simp add: stack_ok_def split_on_no_sep)
next
  case (3 s t ts)
  then show ?case
    by (simp add: stack_ok_def split_on_append_sep split_on_no_sep)
qed

lemma hd_join_with: "st \<noteq> [] \<Longrightarrow> hd st \<noteq> [] \<Longrightarrow> hd (join_with sep st) = hd (hd st)"
  by (induction sep st rule: join_with.induct) auto

lemma last_join_with: "st \<noteq> [] \<Longrightarrow> last st \<noteq> [] \<Longrightarrow> last (join_with sep st) = last (last st)"
  by (cases st rule: rev_cases) (simp_all add: join_with_snoc)

lemma posix_normalize_dot:
  "posix_normalize [CHAR_DOT] = [CHAR_DOT]"
  "posix_normalize [CHAR_DOT, CHAR_FORWARD_SLASH] = [CHAR_DOT, CHAR_FORWARD_SLASH]"
  by (simp_all add: normalize_eval CHAR_DOT_def CHAR_FORWARD_SLASH_def)

lemma segments_dot_slash:
  "segments a ([CHAR_DOT, CHAR_FORWARD_SLASH] @ q) = segments a q"
proof -
  have "split_on CHAR_FORWARD_SLASH ([CHAR_DOT] @ CHAR_FORWARD_SLASH # q)
        = [CHAR_DOT] # split_on CHAR_FORWARD_SLASH q"
    by (subst split_on_append_sep) (simp add: CHAR_DOT_def CHAR_FORWARD_SLASH_def)
  then show ?thesis
    by (simp add: segments_def push_segment_def)
qed

lemma posix_normalize_dot_slash:
  assumes "q \<noteq> []" and "hd q \<noteq> CHAR_FORWARD_SLASH"
  shows "posix_normalize ([CHAR_DOT, CHAR_FORWARD_SLASH] @ q) = posix_normalize q"
proof -
  have "hd ([CHAR_DOT, CHAR_FORWARD_SLASH] @ q) \<noteq> CHAR_FORWARD_SLASH"
    by (simp add: CHAR_DOT_def CHAR_FORWARD_SLASH_def)
  moreover have "last ([CHAR_DOT, CHAR_FORWARD_SLASH] @ q) = last q"
    using assms(1) by simp
  ultimately show ?thesis
    using assms
    by (simp only: posix_normalize_relative segments_dot_slash append_is_Nil_conv
        not_Cons_self2 simp_thms)
qed

text \<open>The shape of a normalized relative path.\<close>

lemma posix_normalize_relative_cases:
  assumes "p \<noteq> []" and "hd p \<noteq> CHAR_FORWARD_SLASH"
  obtains (dot) "posix_normalize p = [CHAR_DOT] \<or> posix_normalize p = [CHAR_DOT, CHAR_FORWARD_SLASH]"
  | (path) st trail where "st \<noteq> []" "stack_ok st" "nf st"
      "trail = [] \<or> trail = [CHAR_FORWARD_SLASH]"
      "posix_normalize p = join_with [CHAR_FORWARD_SLASH] st @ trail"
proof (cases "segments True p = []")
  case True
  then have "posix_normalize p = [CHAR_DOT] \<or> posix_normalize p = [CHAR_DOT, CHAR_FORWARD_SLASH]"
    by (simp add: posix_normalize_relative [OF assms])
  then show ?thesis by (rule dot)
next
  case False
  show ?thesis
  proof (rule path [of "segments True p"
        "if last p = CHAR_FORWARD_SLASH then [CHAR_FORWARD_SLASH] else []"])
    show "posix_normalize p = join_with [CHAR_FORWARD_SLASH] (segments True p)
        @ (if last p = CHAR_FORWARD_SLASH then [CHAR_FORWARD_SLASH] else [])"
      using False by (simp add: posix_normalize_relative [OF assms])
  qed (simp_all add: False segments_ok nf_segments)
qed

lemma join_stack_relative:
  assumes "st \<noteq> []" and "stack_ok st"
  shows "join_with [CHAR_FORWARD_SLASH] st \<noteq> []"
    and "hd (join_with [CHAR_FORWARD_SLASH] st) \<noteq> CHAR_FORWARD_SLASH"
    and "last (join_with [CHAR_FORWARD_SLASH] st) \<noteq> CHAR_FORWARD_SLASH"
proof -
  have h: "hd st \<noteq> []" "CHAR_FORWARD_SLASH \<notin> set (hd st)"
    and l: "last st \<noteq> []" "CHAR_FORWARD_SLASH \<notin> set (last st)"
    using assms by (simp_all add: stack_ok_def)
  show "join_with [CHAR_FORWARD_SLASH] st \<noteq> []"
    using assms by (simp add: join_stack_Nil_iff)
  show "hd (join_with [CHAR_FORWARD_SLASH] st) \<noteq> CHAR_FORWARD_SLASH"
    using h assms(1) by (simp add: hd_join_with) (metis hd_in_set)
  show "last (join_with [CHAR_FORWARD_SLASH] st) \<noteq> CHAR_FORWARD_SLASH"
    using l assms(1) by (simp add: last_join_with) (metis last_in_set)
qed

lemma posix_normalize_join:
  assumes "st \<noteq> []" and "stack_ok st" and "nf st"
    and "trail = [] \<or> trail = [CHAR_FORWARD_SLASH]"
  shows "posix_normalize (join_with [CHAR_FORWARD_SLASH] st @ trail)
         = join_with [CHAR_FORWARD_SLASH] st @ trail"
proof -
  let ?j = "join_with [CHAR_FORWARD_SLASH] st"
  note j = join_stack_relative [OF assms(1,2)]
  have rel: "?j @ trail \<noteq> []" "hd (?j @ trail) \<noteq> CHAR_FORWARD_SLASH"
    using j by simp_all
  have seg: "segments True (?j @ trail) = st"
    using assms(4)
  proof
    assume "trail = []"
    then show ?thesis
      by (simp add: segments_def split_on_join_with [OF assms(2,1)] nf_foldl_id [OF assms(3)])
  next
    assume t: "trail = [CHAR_FORWARD_SLASH]"
    have "split_on CHAR_FORWARD_SLASH (?j @ CHAR_FORWARD_SLASH # []) = st @ [[]]"
      by (subst split_on_append_sep) (simp add: split_on_join_with [OF assms(2,1)])
    then show ?thesis
      by (simp add: t segments_def nf_foldl_id [OF assms(3)] push_segment_def)
  qed
  have la: "last (?j @ trail) = CHAR_FORWARD_SLASH \<longleftrightarrow> trail = [CHAR_FORWARD_SLASH]"
    using assms(4) j(3) by auto
  show ?thesis
    using assms(1,4)
    by (simp only: posix_normalize_relative [OF rel] seg la) auto
qed

lemma posix_normalize_relative_shape:
  assumes "p \<noteq> []" and "hd p \<noteq> CHAR_FORWARD_SLASH"
  shows "posix_normalize p \<noteq> [] \<and> hd (posix_normalize p) \<noteq> CHAR_FORWARD_SLASH
         \<and> posix_normalize (posix_normalize p) = posix_normalize p"
  using assms
proof (cases rule: posix_normalize_relative_cases)
  case dot
  then show ?thesis
    using posix_normalize_dot by (auto simp: CHAR_DOT_def CHAR_FORWARD_SLASH_def)
next
  case (path st trail)
  then show ?thesis
    using join_stack_relative [OF path(1,2)] posix_normalize_join [OF path(1-4)]
    by simp
qed


lemma push_segment_subset: "set (push_segment a st s) \<subseteq> set st \<union> {s, dotdot}"
  using push_segment_cases [of a st s] by (auto dest: in_set_butlastD)

lemma foldl_push_subset:
  "set (foldl (push_segment a) st ss) \<subseteq> set st \<union> set ss \<union> {dotdot}"
proof (induction ss arbitrary: st)
  case Nil
  show ?case by auto
next
  case (Cons s ss)
  show ?case
    using Cons.IH [of "push_segment a st s"] push_segment_subset [of a st s] by auto
qed

lemma split_on_subset: "\<forall>s \<in> set (split_on sep p). set s \<subseteq> set p"
proof (induction p)
  case Nil
  show ?case by simp
next
  case (Cons c p)
  obtain t ts where t: "split_on sep p = t # ts"
    using split_on_not_Nil [of sep p] by (cases "split_on sep p") auto
  with Cons show ?case by auto
qed

lemma segments_units:
  assumes "s \<in> set (segments a p)"
  shows "set s \<subseteq> set p \<union> {CHAR_DOT}"
proof -
  have "s \<in> set (split_on CHAR_FORWARD_SLASH p) \<or> s = dotdot"
    using assms foldl_push_subset [of a "[]" "split_on CHAR_FORWARD_SLASH p"]
    by (auto simp: segments_def)
  then show ?thesis
    using split_on_subset [of CHAR_FORWARD_SLASH p] by (auto simp: dotdot_def)
qed

lemma posix_normalize_units:
  assumes "p \<noteq> []" and "hd p \<noteq> CHAR_FORWARD_SLASH"
  shows "set (posix_normalize p) \<subseteq> set p \<union> {CHAR_DOT, CHAR_FORWARD_SLASH}"
proof -
  have "set (join_with [CHAR_FORWARD_SLASH] (segments True p))
        \<subseteq> set p \<union> {CHAR_DOT, CHAR_FORWARD_SLASH}"
    using set_join_with [of "[CHAR_FORWARD_SLASH]" "segments True p"] segments_units [of _ True p]
    by fastforce
  then show ?thesis
    by (auto simp: posix_normalize_relative [OF assms])
qed

lemma replace_backslashes_none:
  "CHAR_BACKWARD_SLASH \<notin> set q \<Longrightarrow> replace_backslashes q = q"
  by (induction q) (auto simp: replace_backslashes_def)

lemma toImportSpecifier_normalized:
  assumes "q \<noteq> []" and "hd q \<noteq> CHAR_FORWARD_SLASH" and "posix_normalize q = q"
    and "CHAR_BACKWARD_SLASH \<notin> set q"
  shows "toImportSpecifier (if startsWith q [CHAR_DOT] then q else [CHAR_DOT, CHAR_FORWARD_SLASH] @ q)
         = (if startsWith q [CHAR_DOT] then q else [CHAR_DOT, CHAR_FORWARD_SLASH] @ q)"
proof (cases "startsWith q [CHAR_DOT]")
  case True
  then show ?thesis
    using assms(3,4) by (simp add: toImportSpecifier_def replace_backslashes_none)
next
  case False
  have "posix_normalize ([CHAR_DOT, CHAR_FORWARD_SLASH] @ q) = q"
    using posix_normalize_dot_slash [OF assms(1,2)] assms(3) by simp
  then show ?thesis
    using False assms(4)
    by (simp add: toImportSpecifier_def replace_backslashes_none del: append.simps)
qed

lemma toImportSpecifier_of_normalized:
  assumes "CHAR_BACKWARD_SLASH \<notin> set (posix_normalize p)"
  shows "toImportSpecifier p =
           (if startsWith (posix_normalize p) [CHAR_DOT] then posix_normalize p
            else [CHAR_DOT, CHAR_FORWARD_SLASH] @ posix_normalize p)"
  using assms by (simp add: toImportSpecifier_def replace_backslashes_none)

lemma toImportSpecifier_idempotent_posix:
  assumes "CHAR_BACKWARD_SLASH \<notin> set p" and "\<not> startsWith p [CHAR_FORWARD_SLASH]"
  shows "toImportSpecifier (toImportSpecifier p) = toImportSpecifier p"
proof (cases "p = []")
  case True
  have "toImportSpecifier [] = [CHAR_DOT]" "toImportSpecifier [CHAR_DOT] = [CHAR_DOT]"
    by (simp_all add: specifier_eval char_eval)
  with True show ?thesis by simp
next
  case False
  with assms(2) have h: "hd p \<noteq> CHAR_FORWARD_SLASH"
    by (cases p) (simp_all add: startsWith_def)
  let ?q = "posix_normalize p"
  have q: "?q \<noteq> []" "hd ?q \<noteq> CHAR_FORWARD_SLASH" "posix_normalize ?q = ?q"
    using posix_normalize_relative_shape [OF False h] by simp_all
  have nb: "CHAR_BACKWARD_SLASH \<notin> set ?q"
    using posix_normalize_units [OF False h] assms(1)
    by (auto simp: CHAR_BACKWARD_SLASH_def CHAR_DOT_def CHAR_FORWARD_SLASH_def)
  show ?thesis
    unfolding toImportSpecifier_of_normalized [OF nb]
    by (rule toImportSpecifier_normalized [OF q nb])
qed

text \<open>
  A segment as a directory walk names it: not empty, not \<open>.\<close> or \<open>..\<close>, and free of both
  separators.
\<close>

definition plain_segment :: "jsstring \<Rightarrow> bool" where
  "plain_segment s =
     (s \<noteq> [] \<and> s \<noteq> [CHAR_DOT] \<and> s \<noteq> dotdot
      \<and> CHAR_FORWARD_SLASH \<notin> set s \<and> CHAR_BACKWARD_SLASH \<notin> set s)"

lemma nf_plain: "\<forall>s \<in> set segs. plain_segment s \<Longrightarrow> nf segs"
proof (induction segs rule: rev_induct)
  case Nil
  show ?case by (rule nf_Nil)
next
  case (snoc s segs)
  then show ?case
    by (auto simp: plain_segment_def ordinary_def intro: nf_ordinary)
qed

lemma replace_backslashes_join:
  "\<forall>s \<in> set segs. CHAR_BACKWARD_SLASH \<notin> set s \<Longrightarrow>
   replace_backslashes (join_with [CHAR_BACKWARD_SLASH] segs)
   = join_with [CHAR_FORWARD_SLASH] segs"
proof (induction "[CHAR_BACKWARD_SLASH]" segs rule: join_with.induct)
  case 1
  show ?case by (simp add: replace_backslashes_def)
next
  case (2 s)
  then show ?case by (simp add: replace_backslashes_none)
next
  case (3 s t ts)
  then have "replace_backslashes (join_with [CHAR_BACKWARD_SLASH] (t # ts))
             = join_with [CHAR_FORWARD_SLASH] (t # ts)"
    and "replace_backslashes s = s"
    by (simp_all add: replace_backslashes_none)
  then show ?case
    by (simp add: replace_backslashes_def)
qed

lemma posix_normalize_backslash_path:
  assumes "segs \<noteq> []" and "\<forall>s \<in> set segs. plain_segment s"
  shows "posix_normalize (join_with [CHAR_BACKWARD_SLASH] segs)
         = join_with [CHAR_BACKWARD_SLASH] segs"
proof -
  let ?p = "join_with [CHAR_BACKWARD_SLASH] segs"
  have ns: "CHAR_FORWARD_SLASH \<notin> set ?p"
    using set_join_with [of "[CHAR_BACKWARD_SLASH]" segs] assms(2)
    by (auto simp: plain_segment_def CHAR_FORWARD_SLASH_def CHAR_BACKWARD_SLASH_def)
  have ne: "?p \<noteq> []"
    using assms by (subst join_with_Nil_iff) (auto simp: plain_segment_def)
  have nd: "?p \<noteq> [CHAR_DOT] \<and> ?p \<noteq> dotdot"
  proof -
    obtain s ss where segs: "segs = s # ss"
      using assms(1) by (cases segs) auto
    show ?thesis
    proof (cases ss)
      case Nil
      with segs assms(2) show ?thesis
        by (simp add: plain_segment_def)
    next
      case (Cons t ts)
      then have "CHAR_BACKWARD_SLASH \<in> set ?p"
        by (simp add: segs)
      then show ?thesis
        by (auto simp: dotdot_def CHAR_DOT_def CHAR_BACKWARD_SLASH_def)
    qed
  qed
  have nf1: "nf ([] @ [?p])"
    using ne nd ns by (intro nf_ordinary nf_Nil) (simp add: ordinary_def)
  have "posix_normalize (join_with [CHAR_FORWARD_SLASH] [?p] @ []) =
        join_with [CHAR_FORWARD_SLASH] [?p] @ []"
    using ne ns nf1 by (intro posix_normalize_join) (simp_all add: stack_ok_def)
  then show ?thesis
    by simp
qed

text \<open>
  Claim C10, as the code has it. \<open>toImportSpecifier\<close> leaves its own result unchanged for
  every path that holds no backslash and does not begin with a forward slash, and for
  every path made of plain segments joined by backslashes.
\<close>

theorem toImportSpecifier_idempotent_relative:
  "(CHAR_BACKWARD_SLASH \<notin> set p \<and> \<not> startsWith p [CHAR_FORWARD_SLASH]
      \<longrightarrow> toImportSpecifier (toImportSpecifier p) = toImportSpecifier p)
   \<and> (segs \<noteq> [] \<and> (\<forall>s \<in> set segs. plain_segment s)
      \<longrightarrow> toImportSpecifier (toImportSpecifier (join_with [CHAR_BACKWARD_SLASH] segs))
          = toImportSpecifier (join_with [CHAR_BACKWARD_SLASH] segs))"
proof (intro conjI impI)
  assume "CHAR_BACKWARD_SLASH \<notin> set p \<and> \<not> startsWith p [CHAR_FORWARD_SLASH]"
  then show "toImportSpecifier (toImportSpecifier p) = toImportSpecifier p"
    by (simp add: toImportSpecifier_idempotent_posix)
next
  assume a: "segs \<noteq> [] \<and> (\<forall>s \<in> set segs. plain_segment s)"
  let ?p = "join_with [CHAR_BACKWARD_SLASH] segs"
  let ?q = "join_with [CHAR_FORWARD_SLASH] segs"
  have ok: "stack_ok segs"
    using a by (simp add: stack_ok_def plain_segment_def)
  have nb: "CHAR_BACKWARD_SLASH \<notin> set ?q"
    using set_join_with [of "[CHAR_FORWARD_SLASH]" segs] a
    by (auto simp: plain_segment_def CHAR_FORWARD_SLASH_def CHAR_BACKWARD_SLASH_def)
  have r: "replace_backslashes (posix_normalize ?p) = ?q"
    using a by (simp add: posix_normalize_backslash_path replace_backslashes_join
        plain_segment_def)
  have q: "?q \<noteq> []" "hd ?q \<noteq> CHAR_FORWARD_SLASH"
    using join_stack_relative [OF _ ok] a by simp_all
  have n: "posix_normalize ?q = ?q"
    using posix_normalize_join [of segs "[]"] a ok nf_plain [of segs] by simp
  have "toImportSpecifier ?p
        = (if startsWith ?q [CHAR_DOT] then ?q else [CHAR_DOT, CHAR_FORWARD_SLASH] @ ?q)"
    by (simp add: toImportSpecifier_def r)
  then show "toImportSpecifier (toImportSpecifier ?p) = toImportSpecifier ?p"
    using toImportSpecifier_normalized [OF q n nb] by simp
qed

theorem toImportSpecifier_idempotent_relative_witness:
  "toImportSpecifier (js ''routes/../islands/./Counter.tsx'') = js ''./islands/Counter.tsx''
   \<and> toImportSpecifier (js ''./islands/Counter.tsx'') = js ''./islands/Counter.tsx''
   \<and> toImportSpecifier (toImportSpecifier
         (join_with [CHAR_BACKWARD_SLASH] [js ''routes'', js ''api'', js ''get_only.ts'']))
       = toImportSpecifier
           (join_with [CHAR_BACKWARD_SLASH] [js ''routes'', js ''api'', js ''get_only.ts''])
   \<and> toImportSpecifier
         (join_with [CHAR_BACKWARD_SLASH] [js ''routes'', js ''api'', js ''get_only.ts''])
       = js ''./routes/api/get_only.ts''"
proof -
  have a: "CHAR_BACKWARD_SLASH \<notin> set (js ''routes/../islands/./Counter.tsx'')
           \<and> \<not> startsWith (js ''routes/../islands/./Counter.tsx'') [CHAR_FORWARD_SLASH]"
    by (simp add: char_eval startsWith_def)
  have b: "[js ''routes'', js ''api'', js ''get_only.ts''] \<noteq> []
           \<and> (\<forall>s \<in> set [js ''routes'', js ''api'', js ''get_only.ts'']. plain_segment s)"
    by (simp add: plain_segment_def dotdot_def char_eval)
  have v: "toImportSpecifier (js ''routes/../islands/./Counter.tsx'') = js ''./islands/Counter.tsx''"
    by (simp add: specifier_eval char_eval)
  have w: "toImportSpecifier
         (join_with [CHAR_BACKWARD_SLASH] [js ''routes'', js ''api'', js ''get_only.ts''])
       = js ''./routes/api/get_only.ts''"
    by (simp add: specifier_eval char_eval)
  note t = toImportSpecifier_idempotent_relative
    [of "js ''routes/../islands/./Counter.tsx''" "[js ''routes'', js ''api'', js ''get_only.ts'']"]
  from t a have "toImportSpecifier (toImportSpecifier (js ''routes/../islands/./Counter.tsx''))
      = toImportSpecifier (js ''routes/../islands/./Counter.tsx'')"
    by blast
  moreover from t b have "toImportSpecifier (toImportSpecifier
         (join_with [CHAR_BACKWARD_SLASH] [js ''routes'', js ''api'', js ''get_only.ts'']))
       = toImportSpecifier
           (join_with [CHAR_BACKWARD_SLASH] [js ''routes'', js ''api'', js ''get_only.ts''])"
    by blast
  ultimately show ?thesis
    using v w by simp
qed

text \<open>
  For an absolute path the second application is not the identity: \<open>/a\<close> gives \<open>.//a\<close>,
  whose normalization drops the leading \<open>./\<close> and the empty segment, so that \<open>.//a\<close> gives
  \<open>./a\<close>.
\<close>

theorem toImportSpecifier_idempotent_counterexample:
  "toImportSpecifier (toImportSpecifier (js ''/a'')) \<noteq> toImportSpecifier (js ''/a'')
   \<and> toImportSpecifier (js ''/a'') = js ''.//a''
   \<and> toImportSpecifier (js ''.//a'') = js ''./a''"
proof -
  have a: "toImportSpecifier (js ''/a'') = js ''.//a''"
    by (simp add: specifier_eval char_eval)
  have b: "toImportSpecifier (js ''.//a'') = js ''./a''"
    by (simp add: specifier_eval char_eval)
  show ?thesis
    unfolding a b by (simp add: js_def)
qed

subsection \<open>The host: filesystem, path library, subprocess, process state\<close>

text \<open>
  Everything the module asks of the runtime is a field of the record \<open>host\<close>, so that
  each function below is a function of the host's answers. An exception is a value of
  \<open>exn\<close>; a function that can throw returns \<open>exn + 'a\<close>.
\<close>

datatype exn =
    NotFound \<comment> \<open>\<^verbatim>\<open>Deno.errors.NotFound\<close>\<close>
  | PermissionDenied \<comment> \<open>\<^verbatim>\<open>Deno.errors.PermissionDenied\<close>\<close>
  | IOFailure jsstring \<comment> \<open>any other error of the runtime\<close>
  | Error jsstring \<comment> \<open>\<^verbatim>\<open>new Error(message)\<close>\<close>
  | SyntaxError \<comment> \<open>thrown by \<^verbatim>\<open>JSON.parse\<close>\<close>
  | TypeError \<comment> \<open>reading a property of \<^verbatim>\<open>undefined\<close> or \<^verbatim>\<open>null\<close>\<close>
  | Exit jsstring \<comment> \<open>\<^verbatim>\<open>error(message)\<close> of \<^verbatim>\<open>./error.ts\<close>: the process ends\<close>

text \<open>\<^verbatim>\<open>await Deno.stat(dir)\<close>: it throws, or it returns a record with \<^verbatim>\<open>isDirectory\<close>.\<close>

datatype stat_result = StatThrows exn | StatInfo bool

text \<open>
  The asynchronous iterator \<^verbatim>\<open>walk(dir, {includeDirs: false, includeFiles: true, exts})\<close>:
  each step yields the path of one more matching file, ends the iteration, or throws.
\<close>

datatype walk = Done | Throws exn | Yield jsstring walk

text \<open>
  The formatter subprocess \<^verbatim>\<open>deno fmt -\<close> on the text piped to it: \<^verbatim>\<open>spawn()\<close> throws
  (the executable is missing), \<^verbatim>\<open>pipeTo(proc.stdin)\<close> rejects, \<^verbatim>\<open>proc.output()\<close> rejects,
  or the process exits with a status code and the decoded text of its standard output.
\<close>

datatype fmt_run =
    SpawnThrows exn
  | PipeThrows exn
  | OutputThrows exn
  | Exited int jsstring

record host =
  stat :: "jsstring \<Rightarrow> stat_result"
  walk :: "jsstring \<Rightarrow> walk"
  relative :: "jsstring \<Rightarrow> jsstring \<Rightarrow> jsstring"
  join :: "jsstring \<Rightarrow> jsstring \<Rightarrow> jsstring"
  formatter :: "jsstring \<Rightarrow> fmt_run"
  writeTextFile :: "jsstring \<Rightarrow> jsstring \<Rightarrow> exn option"
  versionGteMin :: bool
  execPathHomebrew :: bool
  argsIncludeBuild :: bool
  islandsRejectFirst :: bool
  handoff :: "exn option"

text \<open>
  \<open>relative\<close> and \<open>join\<close> are the host's own (\<^verbatim>\<open>posix\<close> or \<^verbatim>\<open>win32\<close>) path functions of
  \<^verbatim>\<open>./deps.ts\<close>. \<open>writeTextFile path text\<close> is the error \<^verbatim>\<open>Deno.writeTextFile\<close> throws, if
  any. \<open>versionGteMin\<close> is \<^verbatim>\<open>gte(Deno.version.deno, MIN_DENO_VERSION)\<close>, \<open>execPathHomebrew\<close>
  is \<^verbatim>\<open>Deno.execPath().includes("homebrew")\<close>, \<open>argsIncludeBuild\<close> is
  \<^verbatim>\<open>Deno.args.includes("build")\<close>. When both scans of \<^verbatim>\<open>Promise.all\<close> reject,
  \<open>islandsRejectFirst\<close> tells which rejection came first. \<open>handoff\<close> is the error of the
  build step or of the import of the entry point, if any.
\<close>

subsection \<open>Scanning one root (collectDir, lines 35-69)\<close>

text \<open>The walk that yields the paths \<open>ps\<close> and goes on as \<open>w\<close>; the paths a walk yields.\<close>

fun yields :: "jsstring list \<Rightarrow> walk \<Rightarrow> walk" where
  "yields [] w = w"
| "yields (p # ps) w = Yield p (yields ps w)"

fun visited :: "walk \<Rightarrow> jsstring list" where
  "visited Done = []"
| "visited (Throws e) = []"
| "visited (Yield p w) = p # visited w"

text \<open>The message of line 59: the directory and the logical name follow one another.\<close>

definition conflict_message :: "jsstring \<Rightarrow> jsstring \<Rightarrow> jsstring" where
  "conflict_message dir fileNameWithoutExt' =
     js ''Route conflict detected. Multiple files have the same name: ''
       @ dir @ fileNameWithoutExt'"

text \<open>
  Lines 53-68: the loop over the entries of the walk, with the array \<open>paths\<close> and the
  set \<open>fileNames\<close>; at the end \<^verbatim>\<open>paths.sort()\<close>, the default sort, which orders strings by
  their code units.
\<close>

fun collectDir_loop ::
  "'a host_scheme \<Rightarrow> jsstring \<Rightarrow> walk \<Rightarrow> jsstring list \<Rightarrow> jsstring set \<Rightarrow> exn + jsstring list"
where
  "collectDir_loop h dir Done paths fileNames = Inr (sort paths)"
| "collectDir_loop h dir (Throws e) paths fileNames = Inl e"
| "collectDir_loop h dir (Yield path routesFolder) paths fileNames =
     (let fileNameWithoutExt' = fileNameWithoutExt (relative h dir path) in
      if fileNameWithoutExt' \<in> fileNames
      then Inl (Error (conflict_message dir fileNameWithoutExt'))
      else collectDir_loop h dir routesFolder
             (paths @ [relative h dir path]) (insert fileNameWithoutExt' fileNames))"

text \<open>Lines 35-51: the check of the root, then the loop from empty \<open>paths\<close> and \<open>fileNames\<close>.\<close>

definition collectDir :: "'a host_scheme \<Rightarrow> jsstring \<Rightarrow> exn + jsstring list" where
  "collectDir h dir =
     (case stat h dir of
        StatThrows err \<Rightarrow> (if err = NotFound then Inr [] else Inl err)
      | StatInfo isDirectory \<Rightarrow>
          if \<not> isDirectory then Inr []
          else collectDir_loop h dir (walk h dir) [] {})"

text \<open>The logical name of an entry of the walk of \<open>dir\<close>.\<close>

definition logical_name :: "'a host_scheme \<Rightarrow> jsstring \<Rightarrow> jsstring \<Rightarrow> jsstring" where
  "logical_name h dir path = fileNameWithoutExt (relative h dir path)"

lemma collectDir_loop_yields_distinct:
  assumes "distinct (map (logical_name h dir) es)"
    and "set (map (logical_name h dir) es) \<inter> names = {}"
  shows "collectDir_loop h dir (yields es w) paths names =
         collectDir_loop h dir w (paths @ map (relative h dir) es)
           (names \<union> set (map (logical_name h dir) es))"
  using assms
proof (induction es arbitrary: paths names)
  case Nil
  then show ?case by simp
next
  case (Cons e es)
  have i: "set (map (logical_name h dir) es) \<inter> insert (logical_name h dir e) names = {}"
    using Cons.prems by auto
  have d: "distinct (map (logical_name h dir) es)"
    using Cons.prems by simp
  have n: "logical_name h dir e \<notin> names"
    using Cons.prems by auto
  show ?case
    using Cons.IH [OF d i, of "paths @ [relative h dir e]"] n
    by (simp add: logical_name_def Let_def)
qed

lemma collectDir_loop_conflict:
  assumes "distinct (map (logical_name h dir) pre)"
    and "set (map (logical_name h dir) pre) \<inter> names = {}"
    and "logical_name h dir e \<in> names \<union> set (map (logical_name h dir) pre)"
  shows "collectDir_loop h dir (yields pre (Yield e rest)) paths names =
         Inl (Error (conflict_message dir (logical_name h dir e)))"
  using assms(3)
  by (simp add: collectDir_loop_yields_distinct [OF assms(1,2)] logical_name_def Let_def)

lemma walk_decomp: "\<exists>w. wk = yields (visited wk) w \<and> (w = Done \<or> (\<exists>e. w = Throws e))"
  by (induction wk) auto

lemma yields_append: "yields (xs @ ys) w = yields xs (yields ys w)"
  by (induction xs) auto

lemma visited_yields: "visited (yields es w) = es @ visited w"
  by (induction es) auto

lemma visited_conflict_decomp:
  assumes "\<not> distinct (map f (visited wk))"
  shows "\<exists>pre e rest. wk = yields pre (Yield e rest) \<and> distinct (map f pre)
           \<and> f e \<in> f ` set pre"
proof -
  obtain xs y ys where xs: "y \<in> set xs" "distinct xs" "map f (visited wk) = xs @ y # ys"
    using assms by (auto simp: not_distinct_conv_prefix)
  then obtain pre e post where v: "visited wk = pre @ e # post" "map f pre = xs" "f e = y"
    by (auto simp: map_eq_append_conv map_eq_Cons_conv)
  obtain w where "wk = yields (visited wk) w"
    using walk_decomp [of wk] by blast
  then have "wk = yields pre (Yield e (yields post w))"
    by (simp add: v(1) yields_append)
  moreover have "distinct (map f pre)" "f e \<in> f ` set pre"
    using xs v by auto
  ultimately show ?thesis by blast
qed

text \<open>
  Claim C3. When two files visited under a root have the same logical name, the scan
  fails at the first file whose logical name repeats an earlier one, whatever the walk
  would yield after it: the error is the \<^verbatim>\<open>Error\<close> whose message ends with the scanned
  directory followed by that logical name, and no sequence of paths is returned.
\<close>

theorem collectDir_conflict:
  assumes "stat h dir = StatInfo True"
    and "\<not> distinct (map (logical_name h dir) (visited (walk h dir)))"
  shows "\<exists>pre e rest. walk h dir = yields pre (Yield e rest)
           \<and> distinct (map (logical_name h dir) pre)
           \<and> logical_name h dir e \<in> logical_name h dir ` set pre
           \<and> collectDir h dir =
               Inl (Error (js ''Route conflict detected. Multiple files have the same name: ''
                             @ dir @ logical_name h dir e))"
proof -
  obtain pre e rest where w: "walk h dir = yields pre (Yield e rest)"
    and d: "distinct (map (logical_name h dir) pre)"
    and r: "logical_name h dir e \<in> logical_name h dir ` set pre"
    using visited_conflict_decomp [OF assms(2)] by blast
  have "collectDir_loop h dir (yields pre (Yield e rest)) [] {} =
        Inl (Error (conflict_message dir (logical_name h dir e)))"
    using r by (intro collectDir_loop_conflict [OF d]) auto
  then have "collectDir h dir = Inl (Error (conflict_message dir (logical_name h dir e)))"
    by (simp add: collectDir_def assms(1) w)
  with w d r show ?thesis
    unfolding conflict_message_def by blast
qed

lemma collectDir_Inr_distinct:
  assumes "stat h dir = StatInfo True" and "collectDir h dir = Inr ps"
  shows "distinct (map (logical_name h dir) (visited (walk h dir)))"
proof (rule ccontr)
  assume "\<not> distinct (map (logical_name h dir) (visited (walk h dir)))"
  then obtain pre e rest where w: "walk h dir = yields pre (Yield e rest)"
    and d: "distinct (map (logical_name h dir) pre)"
    and r: "logical_name h dir e \<in> logical_name h dir ` set pre"
    using visited_conflict_decomp by blast
  have "collectDir_loop h dir (yields pre (Yield e rest)) [] {} =
        Inl (Error (conflict_message dir (logical_name h dir e)))"
    using r by (intro collectDir_loop_conflict [OF d]) auto
  then show False
    using assms by (simp add: collectDir_def w)
qed

lemma collectDir_finished:
  assumes "stat h dir = StatInfo True" and "walk h dir = yields es w"
    and "distinct (map (logical_name h dir) es)"
  shows "collectDir h dir =
         collectDir_loop h dir w (map (relative h dir) es) (set (map (logical_name h dir) es))"
  using collectDir_loop_yields_distinct [OF assms(3), of "{}" w "[]"]
  by (simp add: collectDir_def assms(1,2))

text \<open>
  Claim C4. A root that does not exist (\<^verbatim>\<open>Deno.stat\<close> throws \<^verbatim>\<open>NotFound\<close>) or that is not a
  directory scans to the empty sequence; every other error of \<^verbatim>\<open>Deno.stat\<close>, and every
  error the walk throws, is the result of the scan.
\<close>

theorem collectDir_root_check:
  "(stat h dir = StatThrows NotFound \<longrightarrow> collectDir h dir = Inr [])
   \<and> (stat h dir = StatInfo False \<longrightarrow> collectDir h dir = Inr [])
   \<and> (stat h dir = StatThrows err \<and> err \<noteq> NotFound \<longrightarrow> collectDir h dir = Inl err)
   \<and> (stat h dir = StatInfo True \<and> walk h dir = yields es (Throws err)
        \<and> distinct (map (logical_name h dir) es) \<longrightarrow> collectDir h dir = Inl err)"
proof -
  have "collectDir h dir = Inl err"
    if "stat h dir = StatInfo True" "walk h dir = yields es (Throws err)"
      "distinct (map (logical_name h dir) es)"
    using collectDir_finished [OF that] by simp
  then show ?thesis
    by (auto simp: collectDir_def)
qed

text \<open>
  Claim C5. A successful scan returns the relative paths of the visited files in
  ascending order, and a scan that visits the same files in any other order returns the
  same sequence.
\<close>

theorem collectDir_deterministic:
  assumes "stat h dir = StatInfo True"
    and "walk h dir = yields es Done"
    and "mset es' = mset es"
    and "collectDir h dir = Inr ps"
  shows "ps = sort (map (relative h dir) es)
         \<and> sorted ps
         \<and> mset ps = mset (map (relative h dir) es)
         \<and> collectDir (h\<lparr>walk := \<lambda>d. yields es' Done\<rparr>) dir = Inr ps"
proof -
  have d: "distinct (map (logical_name h dir) es)"
    using collectDir_Inr_distinct [OF assms(1,4)] by (simp add: assms(2) visited_yields)
  have ps: "ps = sort (map (relative h dir) es)"
    using collectDir_finished [OF assms(1,2) d] assms(4) by simp
  let ?h = "h\<lparr>walk := \<lambda>d. yields es' Done\<rparr>"
  have ln: "logical_name ?h dir = logical_name h dir"
    by (simp add: logical_name_def fun_eq_iff)
  have "mset (map (logical_name h dir) es') = mset (map (logical_name h dir) es)"
    using assms(3) by (metis mset_map)
  then have "distinct (map (logical_name h dir) es')"
    using d mset_eq_imp_distinct_iff by blast
  then have d': "distinct (map (logical_name ?h dir) es')"
    by (simp add: ln)
  have "stat ?h dir = StatInfo True" "walk ?h dir = yields es' Done"
    using assms(1) by simp_all
  from collectDir_finished [OF this d']
  have "collectDir ?h dir = Inr (sort (map (relative h dir) es'))"
    by simp
  moreover have "sort (map (relative h dir) es') = sort (map (relative h dir) es)"
    using assms(3) by (intro properties_for_sort) (metis mset_map mset_sort, simp)
  ultimately show ?thesis
    by (simp add: ps)
qed

subsection \<open>Collecting the manifest (collect, lines 71-83)\<close>

text \<open>The interface \<^verbatim>\<open>Manifest\<close> of lines 71-74.\<close>

record manifest =
  routes :: "jsstring list"
  islands :: "jsstring list"

text \<open>
  \<^verbatim>\<open>Promise.all\<close> of the two scans: the manifest when both succeed, otherwise the
  rejection that came first.
\<close>

definition collect :: "'a host_scheme \<Rightarrow> jsstring \<Rightarrow> exn + manifest" where
  "collect h directory =
     (case (collectDir h (join h directory (js ''./routes'')),
            collectDir h (join h directory (js ''./islands''))) of
        (Inr routes', Inr islands') \<Rightarrow> Inr \<lparr>routes = routes', islands = islands'\<rparr>
      | (Inl e, Inr islands') \<Rightarrow> Inl e
      | (Inr routes', Inl e) \<Rightarrow> Inl e
      | (Inl e1, Inl e2) \<Rightarrow> Inl (if islandsRejectFirst h then e2 else e1))"

subsection \<open>JSON\<close>

text \<open>
  \<^verbatim>\<open>JSON.stringify\<close> of a manifest is the object with the keys \<^verbatim>\<open>routes\<close> and \<^verbatim>\<open>islands\<close>, in
  this order, and the two arrays of quoted strings, without white space. A string is
  quoted as ECMAScript's \<^verbatim>\<open>QuoteJSONString\<close> does: the two-character escapes for backspace,
  tab, newline, form feed, carriage return, the double quote and the backslash; \<^verbatim>\<open>\uXXXX\<close>
  with lowercase digits for the other code units below \<open>0x20\<close> and for a surrogate that
  is not part of a pair; every other code unit as it is.
\<close>

definition hex_digit :: "nat \<Rightarrow> code_unit" where
  "hex_digit d = (if d < 10 then of_nat (48 + d) else of_nat (87 + d))"

definition UnicodeEscape :: "code_unit \<Rightarrow> jsstring" where
  "UnicodeEscape c =
     [CHAR_BACKWARD_SLASH, 117,
      hex_digit (unat c div 4096 mod 16), hex_digit (unat c div 256 mod 16),
      hex_digit (unat c div 16 mod 16), hex_digit (unat c mod 16)]"

definition is_leading_surrogate :: "code_unit \<Rightarrow> bool" where
  "is_leading_surrogate c = (0xD800 \<le> c \<and> c \<le> 0xDBFF)"

definition is_trailing_surrogate :: "code_unit \<Rightarrow> bool" where
  "is_trailing_surrogate c = (0xDC00 \<le> c \<and> c \<le> 0xDFFF)"

definition short_escape :: "code_unit \<Rightarrow> code_unit option" where
  "short_escape c =
     (if c = 8 then Some 98
      else if c = 9 then Some 116
      else if c = 10 then Some 110
      else if c = 12 then Some 102
      else if c = 13 then Some 114
      else if c = CHAR_QUOTE then Some CHAR_QUOTE
      else if c = CHAR_BACKWARD_SLASH then Some CHAR_BACKWARD_SLASH
      else None)"

fun QuoteJSONString_units :: "jsstring \<Rightarrow> jsstring" where
  "QuoteJSONString_units [] = []"
| "QuoteJSONString_units (c # cs) =
     (case short_escape c of
        Some e \<Rightarrow> CHAR_BACKWARD_SLASH # e # QuoteJSONString_units cs
      | None \<Rightarrow>
          if c < 0x20 then UnicodeEscape c @ QuoteJSONString_units cs
          else if is_leading_surrogate c then
            (case cs of
               [] \<Rightarrow> UnicodeEscape c
             | d # ds \<Rightarrow>
                 if is_trailing_surrogate d then c # d # QuoteJSONString_units ds
                 else UnicodeEscape c @ QuoteJSONString_units cs)
          else if is_trailing_surrogate c then UnicodeEscape c @ QuoteJSONString_units cs
          else c # QuoteJSONString_units cs)"

definition QuoteJSONString :: "jsstring \<Rightarrow> jsstring" where
  "QuoteJSONString s = CHAR_QUOTE # QuoteJSONString_units s @ [CHAR_QUOTE]"

definition JSON_stringify_array :: "jsstring list \<Rightarrow> jsstring" where
  "JSON_stringify_array xs = js ''['' @ join_with (js '','') (map QuoteJSONString xs) @ js '']''"

definition JSON_stringify_manifest :: "manifest \<Rightarrow> jsstring" where
  "JSON_stringify_manifest m =
     js ''{'' @ QuoteJSONString (js ''routes'') @ js '':'' @ JSON_stringify_array (routes m)
       @ js '','' @ QuoteJSONString (js ''islands'') @ js '':'' @ JSON_stringify_array (islands m)
       @ js ''}''"


text \<open>
  \<^verbatim>\<open>JSON.parse\<close> is the function of the language (ECMAScript, 25.5.1), which accepts
  the texts of the JSON grammar (ECMA-404) and throws a \<^verbatim>\<open>SyntaxError\<close> on every other
  text. A value is \<^verbatim>\<open>null\<close>, a boolean, a number, a string, an array of values, or an
  object, which is kept as the list of its members in the order of the text; a name
  may occur more than once. A number is kept as the pair \<open>(m, e)\<close> of its decimal
  digits, read as an integer with the sign, and its decimal exponent: its value is
  \<open>m \<times> 10 ^ e\<close> (the sign of a zero is not kept; the module compares a number only
  with the length of an array, for which \<open>-0\<close> and \<open>0\<close> are equal).
\<close>

datatype json =
    JNull
  | JBool bool
  | JNumber int int
  | JString jsstring
  | JArray "json list"
  | JObject "(jsstring \<times> json) list"

text \<open>
  The text is first cut into tokens, white space (tab, line feed, carriage return,
  space) being allowed between any two of them, and the tokens are then read by a
  pushdown automaton. A string literal is read with every escape of the grammar.
\<close>

datatype token =
    LBrace | RBrace | LBracket | RBracket | Colon | Comma
  | TString jsstring
  | TNumber int int
  | TTrue | TFalse | TNull

definition hex_value :: "code_unit \<Rightarrow> nat option" where
  "hex_value c =
     (if 48 \<le> c \<and> c \<le> 57 then Some (unat c - 48)
      else if 97 \<le> c \<and> c \<le> 102 then Some (unat c - 87)
      else if 65 \<le> c \<and> c \<le> 70 then Some (unat c - 55)
      else None)"

definition unescape :: "code_unit \<Rightarrow> code_unit option" where
  "unescape e =
     (if e = 98 then Some 8
      else if e = 116 then Some 9
      else if e = 110 then Some 10
      else if e = 102 then Some 12
      else if e = 114 then Some 13
      else if e = CHAR_QUOTE then Some CHAR_QUOTE
      else if e = CHAR_BACKWARD_SLASH then Some CHAR_BACKWARD_SLASH
      else if e = CHAR_FORWARD_SLASH then Some CHAR_FORWARD_SLASH
      else None)"

definition unicode_value :: "code_unit \<Rightarrow> code_unit \<Rightarrow> code_unit \<Rightarrow> code_unit \<Rightarrow> code_unit option" where
  "unicode_value a b c d =
     (case (hex_value a, hex_value b, hex_value c, hex_value d) of
        (Some x3, Some x2, Some x1, Some x0) \<Rightarrow> Some (of_nat (4096 * x3 + 256 * x2 + 16 * x1 + x0))
      | _ \<Rightarrow> None)"

fun parse_string_units :: "jsstring \<Rightarrow> jsstring \<Rightarrow> (jsstring \<times> jsstring) option" where
  "parse_string_units [] acc = None"
| "parse_string_units (c # cs) acc =
     (if c = CHAR_QUOTE then Some (acc, cs)
      else if c = CHAR_BACKWARD_SLASH then
        (case cs of
           [] \<Rightarrow> None
         | e # es \<Rightarrow>
             if e = 117 then
               (case es of
                  x3 # x2 # x1 # x0 # rest \<Rightarrow>
                    (case unicode_value x3 x2 x1 x0 of
                       None \<Rightarrow> None
                     | Some v \<Rightarrow> parse_string_units rest (acc @ [v]))
                | _ \<Rightarrow> None)
             else
               (case unescape e of
                  None \<Rightarrow> None
                | Some v \<Rightarrow> parse_string_units es (acc @ [v])))
      else if c < 0x20 then None
      else parse_string_units cs (acc @ [c]))"

lemma parse_string_units_shorter:
  "parse_string_units s acc = Some (str, rest) \<Longrightarrow> length rest < length s"
proof (induction s acc rule: parse_string_units.induct)
  case (1 acc)
  then show ?case by simp
next
  case (2 c cs acc)
  then show ?case
    by (force split: if_splits list.splits option.splits)
qed

definition is_whitespace :: "code_unit \<Rightarrow> bool" where
  "is_whitespace c = (c = 9 \<or> c = 10 \<or> c = 13 \<or> c = 32)"

text \<open>
  A number is an optional minus sign, the integer part (a single \<open>0\<close>, or digits that
  do not begin with \<open>0\<close>), an optional fraction (a point and at least one digit) and an
  optional exponent (\<open>e\<close> or \<open>E\<close>, an optional sign, at least one digit). The digits of
  the integer part and of the fraction make \<open>m\<close>; the exponent, less the number of digits
  of the fraction, is \<open>e\<close>.
\<close>

definition is_digit :: "code_unit \<Rightarrow> bool" where
  "is_digit c = (48 \<le> c \<and> c \<le> 57)"

definition digits_value :: "jsstring \<Rightarrow> nat" where
  "digits_value ds = foldl (\<lambda>n d. 10 * n + (unat d - 48)) 0 ds"

definition lex_integer :: "jsstring \<Rightarrow> (jsstring \<times> jsstring) option" where
  "lex_integer s =
     (case s of
        [] \<Rightarrow> None
      | d # r \<Rightarrow>
          if d = 48 then Some ([d], r)
          else if is_digit d then Some (takeWhile is_digit s, dropWhile is_digit s)
          else None)"

definition lex_fraction :: "jsstring \<Rightarrow> (jsstring \<times> jsstring) option" where
  "lex_fraction s =
     (case s of
        [] \<Rightarrow> Some ([], s)
      | p # r \<Rightarrow>
          if p = 46 then
            (if takeWhile is_digit r = [] then None
             else Some (takeWhile is_digit r, dropWhile is_digit r))
          else Some ([], s))"

definition lex_sign :: "jsstring \<Rightarrow> bool \<times> jsstring" where
  "lex_sign s =
     (case s of
        [] \<Rightarrow> (False, s)
      | c # r \<Rightarrow> if c = 45 then (True, r) else if c = 43 then (False, r) else (False, s))"

definition lex_exponent :: "jsstring \<Rightarrow> (int \<times> jsstring) option" where
  "lex_exponent s =
     (case s of
        [] \<Rightarrow> Some (0, s)
      | c # r \<Rightarrow>
          if c = 101 \<or> c = 69 then
            (case lex_sign r of
               (negative, r') \<Rightarrow>
                 if takeWhile is_digit r' = [] then None
                 else Some ((if negative then - int (digits_value (takeWhile is_digit r'))
                             else int (digits_value (takeWhile is_digit r'))),
                            dropWhile is_digit r'))
          else Some (0, s))"

definition lex_number :: "jsstring \<Rightarrow> ((int \<times> int) \<times> jsstring) option" where
  "lex_number s =
     (case (case s of [] \<Rightarrow> (False, s) | c # r \<Rightarrow> if c = 45 then (True, r) else (False, s)) of
        (negative, s1) \<Rightarrow>
          (case lex_integer s1 of
             None \<Rightarrow> None
           | Some (int_digits, s2) \<Rightarrow>
               (case lex_fraction s2 of
                  None \<Rightarrow> None
                | Some (frac_digits, s3) \<Rightarrow>
                    (case lex_exponent s3 of
                       None \<Rightarrow> None
                     | Some (exponent, s4) \<Rightarrow>
                         Some ((if negative then - int (digits_value (int_digits @ frac_digits))
                                else int (digits_value (int_digits @ frac_digits)),
                                exponent - int (length frac_digits)),
                               s4)))))"

lemma lex_integer_shorter:
  "lex_integer s = Some (ds, rest) \<Longrightarrow> length rest < length s"
  by (auto simp: lex_integer_def length_dropWhile_le less_Suc_eq_le
      split: list.splits if_splits)

lemma lex_fraction_shorter:
  "lex_fraction s = Some (ds, rest) \<Longrightarrow> length rest \<le> length s"
  by (auto simp: lex_fraction_def length_dropWhile_le le_SucI split: list.splits if_splits)

lemma lex_sign_shorter: "lex_sign s = (b, rest) \<Longrightarrow> length rest \<le> length s"
  by (auto simp: lex_sign_def split: list.splits if_splits)

lemma lex_exponent_shorter:
  "lex_exponent s = Some (e, rest) \<Longrightarrow> length rest \<le> length s"
  apply (auto simp: lex_exponent_def split: list.splits if_splits prod.splits)
   apply (metis lex_sign_shorter length_dropWhile_le le_SucI le_trans)+
  done

lemma lex_number_shorter:
  "lex_number s = Some (n, rest) \<Longrightarrow> length rest < length s"
  apply (auto simp: lex_number_def split: list.splits if_splits prod.splits option.splits)
  apply (auto dest!: lex_integer_shorter lex_fraction_shorter lex_exponent_shorter)
  done

text \<open>The tokens of a text, or \<open>None\<close> when some part of it is not a token.\<close>

definition emit :: "token \<Rightarrow> token list option \<Rightarrow> token list option" where
  "emit t r = (case r of None \<Rightarrow> None | Some ts \<Rightarrow> Some (t # ts))"

function tokenize :: "jsstring \<Rightarrow> token list option" where
  "tokenize s =
     (case s of
        [] \<Rightarrow> Some []
      | c # cs \<Rightarrow>
          if is_whitespace c then tokenize cs
          else if c = 123 then emit LBrace (tokenize cs)
          else if c = 125 then emit RBrace (tokenize cs)
          else if c = 91 then emit LBracket (tokenize cs)
          else if c = 93 then emit RBracket (tokenize cs)
          else if c = 58 then emit Colon (tokenize cs)
          else if c = 44 then emit Comma (tokenize cs)
          else if c = CHAR_QUOTE then
            (case parse_string_units cs [] of
               None \<Rightarrow> None
             | Some (str, rest) \<Rightarrow> emit (TString str) (tokenize rest))
          else if startsWith s (js ''true'') then emit TTrue (tokenize (drop 4 s))
          else if startsWith s (js ''false'') then emit TFalse (tokenize (drop 5 s))
          else if startsWith s (js ''null'') then emit TNull (tokenize (drop 4 s))
          else if c = 45 \<or> is_digit c then
            (case lex_number s of
               None \<Rightarrow> None
             | Some ((m, e), rest) \<Rightarrow> emit (TNumber m e) (tokenize rest))
          else None)"
  by pat_completeness auto
termination
  by (relation "measure length")
    (auto dest: parse_string_units_shorter lex_number_shorter)

declare tokenize.simps [simp del]

text \<open>
  The automaton. Its stack holds, for every array and object that is still open, the
  elements or members read so far (and, for an object, the name whose value is being
  read); its mode tells what may come next: a value, the first element of an array or
  its closing bracket, a member name, the colon after a name, or what may follow the
  complete value \<open>v\<close>. The text is accepted when the tokens end after a complete value
  with nothing open.
\<close>

datatype frame =
    FArray "json list"
  | FObject "(jsstring \<times> json) list" jsstring

datatype mode =
    MValue
  | MFirstElement
  | MFirstKey
  | MKey "(jsstring \<times> json) list"
  | MColon "(jsstring \<times> json) list" jsstring
  | MAfter json

definition value_start :: "token \<Rightarrow> frame list \<Rightarrow> (mode \<times> frame list) option" where
  "value_start t st =
     (case t of
        LBracket \<Rightarrow> Some (MFirstElement, st)
      | LBrace \<Rightarrow> Some (MFirstKey, st)
      | TString s \<Rightarrow> Some (MAfter (JString s), st)
      | TNumber m e \<Rightarrow> Some (MAfter (JNumber m e), st)
      | TTrue \<Rightarrow> Some (MAfter (JBool True), st)
      | TFalse \<Rightarrow> Some (MAfter (JBool False), st)
      | TNull \<Rightarrow> Some (MAfter JNull, st)
      | _ \<Rightarrow> None)"

fun step :: "mode \<Rightarrow> frame list \<Rightarrow> token \<Rightarrow> (mode \<times> frame list) option" where
  "step MValue st t = value_start t st"
| "step MFirstElement st t =
     (if t = RBracket then Some (MAfter (JArray []), st) else value_start t (FArray [] # st))"
| "step MFirstKey st t =
     (case t of
        RBrace \<Rightarrow> Some (MAfter (JObject []), st)
      | TString k \<Rightarrow> Some (MColon [] k, st)
      | _ \<Rightarrow> None)"
| "step (MKey members) st t =
     (case t of TString k \<Rightarrow> Some (MColon members k, st) | _ \<Rightarrow> None)"
| "step (MColon members k) st t =
     (case t of Colon \<Rightarrow> Some (MValue, FObject members k # st) | _ \<Rightarrow> None)"
| "step (MAfter v) [] t = None"
| "step (MAfter v) (FArray elements # st) t =
     (case t of
        Comma \<Rightarrow> Some (MValue, FArray (elements @ [v]) # st)
      | RBracket \<Rightarrow> Some (MAfter (JArray (elements @ [v])), st)
      | _ \<Rightarrow> None)"
| "step (MAfter v) (FObject members k # st) t =
     (case t of
        Comma \<Rightarrow> Some (MKey (members @ [(k, v)]), st)
      | RBrace \<Rightarrow> Some (MAfter (JObject (members @ [(k, v)])), st)
      | _ \<Rightarrow> None)"

fun parse_tokens :: "mode \<Rightarrow> frame list \<Rightarrow> token list \<Rightarrow> json option" where
  "parse_tokens m st [] = (case (m, st) of (MAfter v, []) \<Rightarrow> Some v | _ \<Rightarrow> None)"
| "parse_tokens m st (t # ts) =
     (case step m st t of
        None \<Rightarrow> None
      | Some (m', st') \<Rightarrow> parse_tokens m' st' ts)"

definition JSON_parse :: "jsstring \<Rightarrow> exn + json" where
  "JSON_parse text =
     (case tokenize text of
        None \<Rightarrow> Inl SyntaxError
      | Some ts \<Rightarrow>
          (case parse_tokens MValue [] ts of
             None \<Rightarrow> Inl SyntaxError
           | Some v \<Rightarrow> Inr v))"


lemma enum16:
  "d < 16 \<Longrightarrow> d = 0 \<or> d = 1 \<or> d = 2 \<or> d = 3 \<or> d = 4 \<or> d = 5 \<or> d = 6 \<or> d = 7 \<or> d = 8
     \<or> d = 9 \<or> d = 10 \<or> d = 11 \<or> d = 12 \<or> d = 13 \<or> d = 14 \<or> d = (15::nat)"
  by arith

lemma hex_value_hex_digit: "d < 16 \<Longrightarrow> hex_value (hex_digit d) = Some d"
  by (drule enum16, elim disjE) (simp_all add: hex_value_def hex_digit_def)

lemma nibbles:
  assumes "n < 65536"
  shows "4096 * (n div 4096 mod 16) + 256 * (n div 256 mod 16) + 16 * (n div 16 mod 16)
           + n mod 16 = (n::nat)"
proof -
  define q1 where "q1 = n div 16"
  define q2 where "q2 = q1 div 16"
  define q3 where "q3 = q2 div 16"
  have n: "n = 16 * q1 + n mod 16" by (simp add: q1_def)
  have q1: "q1 = 16 * q2 + q1 mod 16" by (simp add: q2_def)
  have q2: "q2 = 16 * q3 + q2 mod 16" by (simp add: q3_def)
  have d256: "n div 256 = q2" by (simp add: q2_def q1_def div_mult2_eq [symmetric])
  have d4096: "n div 4096 = q3" by (simp add: q3_def q2_def q1_def div_mult2_eq [symmetric])
  have "q3 < 16" using assms unfolding d4096 [symmetric] by simp
  then have q3: "q3 mod 16 = q3" by simp
  show ?thesis
    unfolding d256 d4096 q3 q1_def [symmetric]
    using n q1 q2 by linarith
qed



lemma unicode_value_UnicodeEscape:
  "unicode_value (hex_digit (unat c div 4096 mod 16)) (hex_digit (unat c div 256 mod 16))
     (hex_digit (unat c div 16 mod 16)) (hex_digit (unat c mod 16)) = Some c"
proof -
  have lt: "unat c < 65536"
    using unsigned_less [of c] by simp
  have "unicode_value (hex_digit (unat c div 4096 mod 16)) (hex_digit (unat c div 256 mod 16))
     (hex_digit (unat c div 16 mod 16)) (hex_digit (unat c mod 16))
     = Some (of_nat (4096 * (unat c div 4096 mod 16) + 256 * (unat c div 256 mod 16)
         + 16 * (unat c div 16 mod 16) + unat c mod 16))"
    by (simp add: unicode_value_def hex_value_hex_digit del: of_nat_add of_nat_mult)
  also have "\<dots> = Some (of_nat (unat c))"
    by (simp only: nibbles [OF lt])
  finally show ?thesis
    by simp
qed

lemma short_escape_unescape:
  "short_escape c = Some e \<Longrightarrow> e \<noteq> 117 \<and> unescape e = Some c"
  by (auto simp: short_escape_def unescape_def CHAR_QUOTE_def CHAR_BACKWARD_SLASH_def
      CHAR_FORWARD_SLASH_def split: if_splits)

lemma short_escape_None:
  "short_escape c = None \<Longrightarrow> c \<noteq> CHAR_QUOTE \<and> c \<noteq> CHAR_BACKWARD_SLASH"
  by (auto simp: short_escape_def split: if_splits)

lemma trailing_surrogate_plain:
  "is_trailing_surrogate d \<Longrightarrow> d \<noteq> CHAR_QUOTE \<and> d \<noteq> CHAR_BACKWARD_SLASH \<and> \<not> d < 0x20"
  by (auto simp: is_trailing_surrogate_def CHAR_QUOTE_def CHAR_BACKWARD_SLASH_def
      word_le_nat_alt word_less_nat_alt)

lemma parse_UnicodeEscape:
  "parse_string_units (UnicodeEscape c @ s) acc = parse_string_units s (acc @ [c])"
  by (simp add: UnicodeEscape_def unicode_value_UnicodeEscape CHAR_QUOTE_def
      CHAR_BACKWARD_SLASH_def)

lemma parse_short_escape:
  "short_escape c = Some e \<Longrightarrow>
   parse_string_units (CHAR_BACKWARD_SLASH # e # s) acc = parse_string_units s (acc @ [c])"
  using short_escape_unescape [of c e]
  by (simp add: CHAR_QUOTE_def CHAR_BACKWARD_SLASH_def)

lemma parse_plain:
  "c \<noteq> CHAR_QUOTE \<Longrightarrow> c \<noteq> CHAR_BACKWARD_SLASH \<Longrightarrow> \<not> c < 0x20 \<Longrightarrow>
   parse_string_units (c # s) acc = parse_string_units s (acc @ [c])"
  by simp


lemma parse_string_units_quoted:
  "parse_string_units (QuoteJSONString_units s @ CHAR_QUOTE # rest) acc = Some (acc @ s, rest)"
proof (induction s arbitrary: acc rule: QuoteJSONString_units.induct)
  case 1
  show ?case by simp
next
  case (2 c cs)
  show ?case
  proof (cases "short_escape c")
    case (Some e)
    then show ?thesis
      using "2.IH" by (simp add: parse_short_escape del: parse_string_units.simps)
  next
    case None
    note plain = short_escape_None [OF None]
    show ?thesis
    proof (cases "c < 0x20")
      case True
      then show ?thesis
        using "2.IH" None
        by (simp add: parse_UnicodeEscape del: parse_string_units.simps)
    next
      case False
      show ?thesis
      proof (cases "is_leading_surrogate c")
        case lead: True
        show ?thesis
        proof (cases cs)
          case Nil
          then show ?thesis
            using None False lead
            by (simp add: parse_UnicodeEscape del: parse_string_units.simps) simp
        next
          case (Cons d ds)
          show ?thesis
          proof (cases "is_trailing_surrogate d")
            case True
            then show ?thesis
              using "2.IH" None False lead Cons plain trailing_surrogate_plain [OF True]
              by (simp add: parse_plain del: parse_string_units.simps)
          next
            case nt: False
            then show ?thesis
              using "2.IH" None False lead Cons
              by (simp add: parse_UnicodeEscape del: parse_string_units.simps)
          qed
        qed
      next
        case nl: False
        show ?thesis
        proof (cases "is_trailing_surrogate c")
          case True
          then show ?thesis
            using "2.IH" None False nl
            by (simp add: parse_UnicodeEscape del: parse_string_units.simps)
        next
          case nt: False
          then show ?thesis
            using "2.IH" None False nl plain
            by (simp add: parse_plain del: parse_string_units.simps)
        qed
      qed
    qed
  qed
qed

text \<open>
  The value of a manifest, and its tokens: \<^verbatim>\<open>JSON.parse\<close> reads the text that
  \<^verbatim>\<open>JSON.stringify\<close> wrote for a manifest as the object with the two arrays of strings.
\<close>

definition manifest_json :: "manifest \<Rightarrow> json" where
  "manifest_json m =
     JObject [(js ''routes'', JArray (map JString (routes m))),
              (js ''islands'', JArray (map JString (islands m)))]"

fun elements_tokens :: "jsstring list \<Rightarrow> token list" where
  "elements_tokens [] = []"
| "elements_tokens [x] = [TString x]"
| "elements_tokens (x # y # ys) = TString x # Comma # elements_tokens (y # ys)"

definition emits :: "token list \<Rightarrow> token list option \<Rightarrow> token list option" where
  "emits ts r = (case r of None \<Rightarrow> None | Some us \<Rightarrow> Some (ts @ us))"

lemma emit_emits: "emit t (emits ts r) = emits (t # ts) r"
  by (simp add: emit_def emits_def split: option.splits)

lemma emits_emit: "emits ts (emit t r) = emits (ts @ [t]) r"
  by (simp add: emit_def emits_def split: option.splits)

lemma emits_emits: "emits ts (emits us r) = emits (ts @ us) r"
  by (simp add: emits_def split: option.splits)

lemma emit_as_emits: "emit t r = emits [t] r"
  by (simp add: emit_def emits_def split: option.splits)

lemma tokenize_punctuation:
  "tokenize (123 # s) = emit LBrace (tokenize s)"
  "tokenize (125 # s) = emit RBrace (tokenize s)"
  "tokenize (91 # s) = emit LBracket (tokenize s)"
  "tokenize (93 # s) = emit RBracket (tokenize s)"
  "tokenize (58 # s) = emit Colon (tokenize s)"
  "tokenize (44 # s) = emit Comma (tokenize s)"
  by (subst tokenize.simps, simp add: is_whitespace_def)+

lemma tokenize_string:
  "tokenize (QuoteJSONString x @ s) = emit (TString x) (tokenize s)"
proof -
  have "parse_string_units (QuoteJSONString_units x @ 34 # s) [] = Some (x, s)"
    using parse_string_units_quoted [of x s "[]"] by (simp add: CHAR_QUOTE_def)
  then show ?thesis
    by (subst tokenize.simps)
      (simp add: QuoteJSONString_def is_whitespace_def CHAR_QUOTE_def)
qed

lemma tokenize_elements:
  "tokenize (join_with [44] (map QuoteJSONString xs) @ 93 # rest)
   = emits (elements_tokens xs @ [RBracket]) (tokenize rest)"
proof (induction xs rule: elements_tokens.induct)
  case 1
  show ?case by (simp add: tokenize_punctuation emit_as_emits)
next
  case (2 x)
  show ?case by (simp add: tokenize_string tokenize_punctuation emit_as_emits emits_emits)
next
  case (3 x y ys)
  have "join_with [44] (map QuoteJSONString (x # y # ys)) @ 93 # rest =
        QuoteJSONString x @ 44 # (join_with [44] (map QuoteJSONString (y # ys)) @ 93 # rest)"
    by simp
  then show ?case
    using 3 by (simp only: tokenize_string tokenize_punctuation emit_emits elements_tokens.simps)
      simp
qed

lemma tokenize_array:
  "tokenize (JSON_stringify_array xs @ rest)
   = emits (LBracket # elements_tokens xs @ [RBracket]) (tokenize rest)"
proof -
  have "JSON_stringify_array xs @ rest = 91 # (join_with [44] (map QuoteJSONString xs) @ 93 # rest)"
    by (simp add: JSON_stringify_array_def js_def)
  then show ?thesis
    by (simp only: tokenize_punctuation tokenize_elements emit_emits)
qed

definition manifest_tokens :: "manifest \<Rightarrow> token list" where
  "manifest_tokens m =
     [LBrace, TString (js ''routes''), Colon]
     @ (LBracket # elements_tokens (routes m) @ [RBracket])
     @ [Comma, TString (js ''islands''), Colon]
     @ (LBracket # elements_tokens (islands m) @ [RBracket])
     @ [RBrace]"

lemma tokenize_Nil: "tokenize [] = Some []"
  by (subst tokenize.simps) simp

lemma tokenize_manifest:
  "tokenize (JSON_stringify_manifest m) = Some (manifest_tokens m)"
proof -
  have "JSON_stringify_manifest m =
        123 # (QuoteJSONString (js ''routes'') @ 58 # (JSON_stringify_array (routes m)
          @ 44 # (QuoteJSONString (js ''islands'') @ 58 # (JSON_stringify_array (islands m)
          @ 125 # []))))"
    by (simp add: JSON_stringify_manifest_def js_def)
  then have "tokenize (JSON_stringify_manifest m) = emits (manifest_tokens m) (Some [])"
    by (simp only: tokenize_punctuation tokenize_string tokenize_array tokenize_Nil
        emit_as_emits emits_emits manifest_tokens_def append.simps append_assoc)
  then show ?thesis
    by (simp add: emits_def)
qed

lemma parse_elements_tokens:
  "xs \<noteq> [] \<Longrightarrow>
   parse_tokens MValue (FArray acc # st) (elements_tokens xs @ RBracket # ts)
   = parse_tokens (MAfter (JArray (acc @ map JString xs))) st ts"
proof (induction xs arbitrary: acc rule: elements_tokens.induct)
  case 1
  then show ?case by simp
next
  case (2 x)
  show ?case by (simp add: value_start_def)
next
  case (3 x y ys)
  then show ?case by (simp add: value_start_def)
qed

lemma parse_array_tokens:
  "parse_tokens MValue st (LBracket # elements_tokens xs @ RBracket # ts)
   = parse_tokens (MAfter (JArray (map JString xs))) st ts"
proof (cases xs)
  case Nil
  then show ?thesis by (simp add: value_start_def)
next
  case (Cons x xs')
  then obtain u where u: "elements_tokens xs = TString x # u"
    by (cases xs') simp_all
  have "parse_tokens MValue st (LBracket # elements_tokens xs @ RBracket # ts)
        = parse_tokens MValue (FArray [] # st) (elements_tokens xs @ RBracket # ts)"
    by (simp add: u value_start_def)
  also have "\<dots> = parse_tokens (MAfter (JArray (map JString xs))) st ts"
    using parse_elements_tokens [of xs "[]" st ts] Cons by simp
  finally show ?thesis .
qed

lemma parse_manifest_tokens:
  "parse_tokens MValue [] (manifest_tokens m) = Some (manifest_json m)"
proof -
  let ?r = "JArray (map JString (routes m))" and ?i = "JArray (map JString (islands m))"
  let ?tail = "[Comma, TString (js ''islands''), Colon]
               @ (LBracket # elements_tokens (islands m) @ RBracket # [RBrace])"
  have "parse_tokens MValue [] (manifest_tokens m)
        = parse_tokens MValue [FObject [] (js ''routes'')]
            (LBracket # elements_tokens (routes m) @ RBracket # ?tail)"
    by (simp add: manifest_tokens_def value_start_def)
  also have "\<dots> = parse_tokens (MAfter ?r) [FObject [] (js ''routes'')] ?tail"
    by (rule parse_array_tokens)
  also have "\<dots> = parse_tokens MValue [FObject [(js ''routes'', ?r)] (js ''islands'')]
                      (LBracket # elements_tokens (islands m) @ RBracket # [RBrace])"
    by simp
  also have "\<dots> = parse_tokens (MAfter ?i) [FObject [(js ''routes'', ?r)] (js ''islands'')]
                      [RBrace]"
    by (rule parse_array_tokens)
  also have "\<dots> = Some (manifest_json m)"
    by (simp add: manifest_json_def)
  finally show ?thesis .
qed

lemma JSON_roundtrip: "JSON_parse (JSON_stringify_manifest m) = Inr (manifest_json m)"
  by (simp add: JSON_parse_def tokenize_manifest parse_manifest_tokens)

subsection \<open>Rendering and writing the registry module (generate, lines 96-166)\<close>

text \<open>\<^verbatim>\<open>String(i)\<close> for an array index: the decimal digits.\<close>

function decimal :: "nat \<Rightarrow> jsstring" where
  "decimal n = (if n < 10 then [of_nat (48 + n)] else decimal (n div 10) @ [of_nat (48 + n mod 10)])"
  by pat_completeness auto
termination
  by (relation "measure id") auto

declare decimal.simps [simp del]

text \<open>\<^verbatim>\<open>xs.map((x, i) => f(x, i))\<close>, the index starting at \<open>i\<close>.\<close>

fun map_index :: "('a \<Rightarrow> nat \<Rightarrow> 'b) \<Rightarrow> nat \<Rightarrow> 'a list \<Rightarrow> 'b list" where
  "map_index f i [] = []"
| "map_index f i (x # xs) = f x i # map_index f (i + 1) xs"

text \<open>
  The four callbacks of lines 104-105, 111-112, 120-121 and 128-131: the import of a
  route and of an island, and their entries in the registry.
\<close>

definition route_import :: "'a host_scheme \<Rightarrow> jsstring \<Rightarrow> nat \<Rightarrow> jsstring" where
  "route_import h file i =
     js ''import * as $'' @ decimal i @ js '' from '' @ [CHAR_QUOTE]
       @ toImportSpecifier (join h (js ''routes'') file) @ [CHAR_QUOTE] @ js '';''"

definition island_import :: "'a host_scheme \<Rightarrow> jsstring \<Rightarrow> nat \<Rightarrow> jsstring" where
  "island_import h file i =
     js ''import * as $$'' @ decimal i @ js '' from '' @ [CHAR_QUOTE]
       @ toImportSpecifier (join h (js ''islands'') file) @ [CHAR_QUOTE] @ js '';''"

definition route_entry :: "'a host_scheme \<Rightarrow> jsstring \<Rightarrow> nat \<Rightarrow> jsstring" where
  "route_entry h file i =
     QuoteJSONString (toImportSpecifier (join h (js ''routes'') file))
       @ js '': $'' @ decimal i @ js '',''"

definition island_entry :: "'a host_scheme \<Rightarrow> jsstring \<Rightarrow> nat \<Rightarrow> jsstring" where
  "island_entry h file i =
     QuoteJSONString (toImportSpecifier (join h (js ''islands'') file))
       @ js '': $$'' @ decimal i @ js '',''"

text \<open>The first four lines of the template (lines 99-102), and the whole template.\<close>

definition header :: jsstring where
  "header =
     js ''// DO NOT EDIT. This file is generated by Fresh.'' @ [CHAR_NEWLINE]
     @ js ''// This file SHOULD be checked into source version control.'' @ [CHAR_NEWLINE]
     @ js ''// This file is automatically updated during development when running ''
     @ [CHAR_BACKTICK] @ js ''dev.ts'' @ [CHAR_BACKTICK] @ js ''.'' @ [CHAR_NEWLINE]
     @ [CHAR_NEWLINE]"

definition output_text :: "'a host_scheme \<Rightarrow> manifest \<Rightarrow> jsstring" where
  "output_text h manifest =
     header
     @ join_with [CHAR_NEWLINE] (map_index (route_import h) 0 (routes manifest)) @ [CHAR_NEWLINE]
     @ join_with [CHAR_NEWLINE] (map_index (island_import h) 0 (islands manifest)) @ [CHAR_NEWLINE]
     @ [CHAR_NEWLINE]
     @ js ''const manifest = {'' @ [CHAR_NEWLINE]
     @ js ''  routes: {'' @ [CHAR_NEWLINE]
     @ js ''    ''
     @ join_with (CHAR_NEWLINE # js ''    '') (map_index (route_entry h) 0 (routes manifest))
     @ [CHAR_NEWLINE]
     @ js ''  },'' @ [CHAR_NEWLINE]
     @ js ''  islands: {'' @ [CHAR_NEWLINE]
     @ js ''    ''
     @ join_with (CHAR_NEWLINE # js ''    '') (map_index (island_entry h) 0 (islands manifest))
     @ [CHAR_NEWLINE]
     @ js ''  },'' @ [CHAR_NEWLINE]
     @ js ''  baseUrl: import.meta.url,'' @ [CHAR_NEWLINE]
     @ js ''};'' @ [CHAR_NEWLINE]
     @ [CHAR_NEWLINE]
     @ js ''export default manifest;'' @ [CHAR_NEWLINE]"

text \<open>
  The effects of the module. The state \<open>world\<close> holds the environment variable
  \<^verbatim>\<open>FRSH_DEV_PREVIOUS_MANIFEST\<close>, the text files written, and the trace of the effects in
  the order in which they happened. \<open>Stat dir\<close> is the call \<^verbatim>\<open>Deno.stat(dir)\<close> with which
  the scan of \<open>dir\<close> begins.
\<close>

datatype event =
    EnvGet
  | EnvSet jsstring
  | Stat jsstring
  | Spawn
  | PipeTo jsstring
  | ReadOutput
  | WriteTextFile jsstring jsstring
  | ConsoleLog jsstring
  | Build jsstring
  | Import jsstring

record world =
  FRSH_DEV_PREVIOUS_MANIFEST :: "jsstring option"
  files :: "jsstring \<rightharpoonup> jsstring"
  trace :: "event list"

definition log :: "event \<Rightarrow> world \<Rightarrow> world" where
  "log e w = w\<lparr>trace := trace w @ [e]\<rparr>"

text \<open>The text of the \<^verbatim>\<open>console.log\<close> of lines 162-165.\<close>

definition generated_message :: "manifest \<Rightarrow> jsstring" where
  "generated_message manifest =
     js ''%cThe manifest has been generated for '' @ decimal (length (routes manifest))
       @ js '' routes and '' @ decimal (length (islands manifest)) @ js '' islands.''"

text \<open>
  Lines 142-165. A failing \<^verbatim>\<open>Deno.writeTextFile\<close> is taken to leave the file as it was.
\<close>

definition generate :: "'a host_scheme \<Rightarrow> jsstring \<Rightarrow> manifest \<Rightarrow> world \<Rightarrow> (exn + unit) \<times> world" where
  "generate h directory manifest w =
     (let outputText = output_text h manifest;
          w1 = log Spawn w
      in case formatter h outputText of
           SpawnThrows e \<Rightarrow> (Inl e, w1)
         | PipeThrows e \<Rightarrow> (Inl e, log (PipeTo outputText) w1)
         | OutputThrows e \<Rightarrow> (Inl e, log ReadOutput (log (PipeTo outputText) w1))
         | Exited status stdout \<Rightarrow>
             (let w2 = log ReadOutput (log (PipeTo outputText) w1);
                  manifestStr = stdout;
                  manifestPath = join h directory (js ''./fresh.gen.ts'')
              in case writeTextFile h manifestPath manifestStr of
                   Some e \<Rightarrow> (Inl e, w2)
                 | None \<Rightarrow>
                     (Inr (),
                      log (ConsoleLog (generated_message manifest))
                        (log (WriteTextFile manifestPath manifestStr)
                           (w2\<lparr>files := (files w2)(manifestPath \<mapsto> manifestStr)\<rparr>)))))"

subsection \<open>The coordinator (dev, lines 168-211)\<close>

definition MIN_DENO_VERSION :: jsstring where
  "MIN_DENO_VERSION = js ''1.31.0''"

text \<open>
  Lines 18-33. Modelled from the spec: \<^verbatim>\<open>error\<close> of \<^verbatim>\<open>./error.ts\<close> is not among the sources;
  a version below the minimum is fatal and reported with the remediation hint, here the
  exception \<open>Exit\<close> with the message.
\<close>

definition ensureMinDenoVersion :: "'a host_scheme \<Rightarrow> exn + unit" where
  "ensureMinDenoVersion h =
     (if \<not> versionGteMin h then
        (let message =
               js ''Deno version '' @ MIN_DENO_VERSION
                 @ js '' or higher is required. Please update Deno.''
                 @ [CHAR_NEWLINE, CHAR_NEWLINE];
             message' =
               (if execPathHomebrew h
                then message
                  @ js ''You seem to have installed Deno via homebrew. To update, run: ''
                  @ [CHAR_BACKTICK] @ js ''brew upgrade deno'' @ [CHAR_BACKTICK] @ [CHAR_NEWLINE]
                else message @ js ''To update, run: ''
                  @ [CHAR_BACKTICK] @ js ''deno upgrade'' @ [CHAR_BACKTICK] @ [CHAR_NEWLINE])
         in Inl (Exit message'))
      else Inr ())"

text \<open>
  The previous snapshot is whatever \<^verbatim>\<open>JSON.parse\<close> returned: the annotation
  \<^verbatim>\<open>currentManifest: Manifest\<close> of line 182 is not checked when the program runs. The
  expressions of lines 192-194 and 205-211 read three kinds of properties of such a
  value. \<open>lookup\<close> is the member of an object with a given name, the last one in the
  text when the name occurs more than once.
\<close>

definition lookup :: "(jsstring \<times> json) list \<Rightarrow> jsstring \<Rightarrow> json option" where
  "lookup members key = map_of (rev members) key"

text \<open>
  \<^verbatim>\<open>currentManifest.routes\<close> and \<^verbatim>\<open>currentManifest.islands\<close>: reading a property of \<^verbatim>\<open>null\<close>
  throws; an object has the property when it has a member of that name; no other value
  has a property of these two names. \<open>None\<close> is \<^verbatim>\<open>undefined\<close>.
\<close>

definition named_property :: "json \<Rightarrow> jsstring \<Rightarrow> exn + json option" where
  "named_property v key =
     (case v of
        JNull \<Rightarrow> Inl TypeError
      | JObject members \<Rightarrow> Inr (lookup members key)
      | _ \<Rightarrow> Inr None)"

text \<open>
  \<open>number_is m e n\<close>: the number \<open>m \<times> 10 ^ e\<close> of a text, which \<^verbatim>\<open>JSON.parse\<close> rounds to
  the nearest double (a tie goes to the even significand), is the array length \<open>n\<close>,
  for \<open>n\<close> below \<open>2 ^ 32\<close>. With \<open>2 ^ k \<le> n < 2 ^ (k + 1)\<close>, the next double above
  \<open>n\<close> is at the distance \<open>2 ^ (k - 52)\<close>, and so is the next one below, except when
  \<open>n = 2 ^ k\<close>, where it is at the distance \<open>2 ^ (k - 53)\<close>; a number rounds to \<open>n\<close> when it
  lies between the two midpoints, which are included. The doubles next to \<open>0\<close> are at the
  distance \<open>2 ^ (- 1074)\<close>. All comparisons are multiplied by \<open>2 ^ 54\<close> (by \<open>2 ^ 1075\<close> for
  \<open>0\<close>) and by the power of ten in the denominator, so that they are between integers.
\<close>

fun floor_log2 :: "nat \<Rightarrow> nat" where
  "floor_log2 n = (if n < 2 then 0 else Suc (floor_log2 (n div 2)))"

declare floor_log2.simps [simp del]

definition number_is :: "int \<Rightarrow> int \<Rightarrow> nat \<Rightarrow> bool" where
  "number_is m e n =
     (let num = (if 0 \<le> e then m * 10 ^ nat e else m);
          den = (if 0 \<le> e then 1 else 10 ^ nat (- e))
      in if n = 0 then \<bar>num\<bar> * 2 ^ 1075 \<le> den
         else
           (let k = floor_log2 n;
                below = (if n = 2 ^ k then 2 ^ k else 2 ^ (k + 1));
                above = 2 ^ (k + 1)
            in (int n * 2 ^ 54 - below) * den \<le> num * 2 ^ 54
               \<and> num * 2 ^ 54 \<le> (int n * 2 ^ 54 + above) * den))"

text \<open>
  \<^verbatim>\<open>a.length !== b.length\<close> for an array \<open>a\<close> of \<open>n\<close> elements: reading \<^verbatim>\<open>length\<close> of
  \<^verbatim>\<open>undefined\<close> or \<^verbatim>\<open>null\<close> throws; an array and a string have their length; an object
  has the member of that name, if any, which is \<open>n\<close> only when it is a number equal to
  \<open>n\<close>; a boolean and a number have no such property.
\<close>

definition length_differs :: "nat \<Rightarrow> json option \<Rightarrow> exn + bool" where
  "length_differs n b =
     (case b of
        None \<Rightarrow> Inl TypeError
      | Some JNull \<Rightarrow> Inl TypeError
      | Some (JArray elements) \<Rightarrow> Inr (n \<noteq> length elements)
      | Some (JString s) \<Rightarrow> Inr (n \<noteq> length s)
      | Some (JObject members) \<Rightarrow>
          Inr (case lookup members (js ''length'') of
                 Some (JNumber m e) \<Rightarrow> \<not> number_is m e n
               | _ \<Rightarrow> True)
      | Some (JBool t) \<Rightarrow> Inr True
      | Some (JNumber m e) \<Rightarrow> Inr True)"

text \<open>
  \<^verbatim>\<open>b[i]\<close>: the element of an array, the string of the one code unit of a string, the
  member of an object whose name is the decimal numeral of \<open>i\<close>; \<^verbatim>\<open>undefined\<close> when there
  is none.
\<close>

definition element :: "json option \<Rightarrow> nat \<Rightarrow> exn + json option" where
  "element b i =
     (case b of
        None \<Rightarrow> Inl TypeError
      | Some JNull \<Rightarrow> Inl TypeError
      | Some (JArray elements) \<Rightarrow> Inr (if i < length elements then Some (elements ! i) else None)
      | Some (JString s) \<Rightarrow> Inr (if i < length s then Some (JString [s ! i]) else None)
      | Some (JObject members) \<Rightarrow> Inr (lookup members (decimal i))
      | Some (JBool t) \<Rightarrow> Inr None
      | Some (JNumber m e) \<Rightarrow> Inr None)"

text \<open>
  Lines 205-211, for an array \<open>a\<close> of strings and the value \<open>b\<close> found in the snapshot: the
  loop over the index, and the function. \<^verbatim>\<open>a[i] !== b[i]\<close> is false only when \<^verbatim>\<open>b[i]\<close> is the
  same string.
\<close>

function arraysEqual_loop :: "jsstring list \<Rightarrow> json option \<Rightarrow> nat \<Rightarrow> exn + bool" where
  "arraysEqual_loop a b i =
     (if i < length a
      then (case element b i of
              Inl e \<Rightarrow> Inl e
            | Inr bi \<Rightarrow>
                if Some (JString (a ! i)) \<noteq> bi then Inr False
                else arraysEqual_loop a b (i + 1))
      else Inr True)"
  by pat_completeness auto
termination
  by (relation "measure (\<lambda>(a, b, i). length a - i)") auto

declare arraysEqual_loop.simps [simp del]

definition arraysEqual :: "jsstring list \<Rightarrow> json option \<Rightarrow> exn + bool" where
  "arraysEqual a b =
     (case length_differs (length a) b of
        Inl e \<Rightarrow> Inl e
      | Inr differs \<Rightarrow> if differs then Inr False else arraysEqual_loop a b 0)"

text \<open>
  Lines 182-188: an absent or empty value of the variable is falsy and stands for the
  object \<^verbatim>\<open>{ islands: [], routes: [] }\<close>; any other value is parsed.
\<close>

definition previous_manifest :: "jsstring option \<Rightarrow> exn + json" where
  "previous_manifest prevManifest =
     (case prevManifest of
        None \<Rightarrow> Inr (JObject [(js ''islands'', JArray []), (js ''routes'', JArray [])])
      | Some s \<Rightarrow>
          if s \<noteq> [] then JSON_parse s
          else Inr (JObject [(js ''islands'', JArray []), (js ''routes'', JArray [])]))"

text \<open>
  Lines 192-194: the islands are compared only when the routes are equal, and each
  operand is evaluated when its turn comes.
\<close>

definition manifestChanged :: "manifest \<Rightarrow> json \<Rightarrow> exn + bool" where
  "manifestChanged newManifest currentManifest =
     (case named_property currentManifest (js ''routes'') of
        Inl e \<Rightarrow> Inl e
      | Inr currentRoutes \<Rightarrow>
          (case arraysEqual (routes newManifest) currentRoutes of
             Inl e \<Rightarrow> Inl e
           | Inr routesEqual \<Rightarrow>
               if \<not> routesEqual then Inr True
               else
                 (case named_property currentManifest (js ''islands'') of
                    Inl e \<Rightarrow> Inl e
                  | Inr currentIslands \<Rightarrow>
                      (case arraysEqual (islands newManifest) currentIslands of
                         Inl e \<Rightarrow> Inl e
                       | Inr islandsEqual \<Rightarrow> Inr (\<not> islandsEqual)))))"

text \<open>
  Line 189: \<^verbatim>\<open>collect\<close> starts the scan of the routes and then the scan of the islands,
  each with its call of \<^verbatim>\<open>Deno.stat\<close>, before it waits for either. The steps of the two
  walks, which only read the file system, are not recorded in the trace.
\<close>

definition collect_traced ::
  "'a host_scheme \<Rightarrow> jsstring \<Rightarrow> world \<Rightarrow> (exn + manifest) \<times> world" where
  "collect_traced h directory w =
     (collect h directory,
      log (Stat (join h directory (js ''./islands'')))
        (log (Stat (join h directory (js ''./routes''))) w))"

text \<open>Lines 198-202: the build step, or the import of the entry point.\<close>

definition dispatch :: "'a host_scheme \<Rightarrow> jsstring \<Rightarrow> jsstring \<Rightarrow> world \<Rightarrow> (exn + unit) \<times> world" where
  "dispatch h dir entrypoint w =
     (let w' = (if argsIncludeBuild h
                then log (Build (join h dir (js ''fresh.gen.ts''))) w
                else log (Import entrypoint) w)
      in case handoff h of
           Some e \<Rightarrow> (Inl e, w')
         | None \<Rightarrow> (Inr (), w'))"

text \<open>
  Lines 168-203. \<open>dir\<close> is \<^verbatim>\<open>dirname(fromFileUrl(base))\<close> and \<open>entrypoint\<close> the resolved
  \<^verbatim>\<open>new URL(entrypoint, base).href\<close>. The update check of line 176 runs in the background
  and its failure is discarded; it is left out. The variable is read (line 183) and its
  value parsed (185) before the scans begin (189); the new snapshot is stored (190)
  before the comparison (192-194), so that an exception of the comparison leaves the
  new snapshot in the variable.
\<close>

definition dev :: "'a host_scheme \<Rightarrow> jsstring \<Rightarrow> jsstring \<Rightarrow> world \<Rightarrow> (exn + unit) \<times> world" where
  "dev h dir entrypoint w =
     (case ensureMinDenoVersion h of
        Inl e \<Rightarrow> (Inl e, w)
      | Inr u \<Rightarrow>
          (let prevManifest = FRSH_DEV_PREVIOUS_MANIFEST w;
               w1 = log EnvGet w
           in case previous_manifest prevManifest of
                Inl e \<Rightarrow> (Inl e, w1)
              | Inr currentManifest \<Rightarrow>
                  (case collect_traced h dir w1 of
                     (Inl e, w2) \<Rightarrow> (Inl e, w2)
                   | (Inr newManifest, w2) \<Rightarrow>
                       (let snapshot = JSON_stringify_manifest newManifest;
                            w3 = log (EnvSet snapshot)
                                   (w2\<lparr>FRSH_DEV_PREVIOUS_MANIFEST := Some snapshot\<rparr>)
                        in case manifestChanged newManifest currentManifest of
                             Inl e \<Rightarrow> (Inl e, w3)
                           | Inr changed \<Rightarrow>
                               if changed
                               then (case generate h dir newManifest w3 of
                                       (Inl e, w4) \<Rightarrow> (Inl e, w4)
                                     | (Inr u, w4) \<Rightarrow> dispatch h dir entrypoint w4)
                               else dispatch h dir entrypoint w3))))"

subsection \<open>A POSIX host\<close>

text \<open>
  A host on which the properties are evaluated. \<open>posix_join\<close> is \<^verbatim>\<open>posix.join\<close> of the
  standard library for two paths: the non-empty ones joined by a slash and normalized.
  \<open>relative_below dir path\<close> is \<^verbatim>\<open>posix.relative\<close> for a path below \<open>dir\<close>: what follows
  \<open>dir\<close> and the separator. The project \<^verbatim>\<open>/app\<close> has two routes and one island, the
  formatter returns its input with status 0.
\<close>

definition posix_join :: "jsstring \<Rightarrow> jsstring \<Rightarrow> jsstring" where
  "posix_join a b =
     (let joined = (if a = [] then b else if b = [] then a else a @ [CHAR_FORWARD_SLASH] @ b)
      in if joined = [] then [CHAR_DOT] else posix_normalize joined)"

definition relative_below :: "jsstring \<Rightarrow> jsstring \<Rightarrow> jsstring" where
  "relative_below dir path = drop (length dir + 1) path"

definition app_stat :: "jsstring \<Rightarrow> stat_result" where
  "app_stat d =
     (if d = js ''/app/routes'' \<or> d = js ''/app/islands'' \<or> d = js ''/clash/routes''
         \<or> d = js ''/broken/routes''
      then StatInfo True
      else if d = js ''/file/routes'' then StatInfo False
      else if d = js ''/locked/routes'' then StatThrows PermissionDenied
      else StatThrows NotFound)"

definition app_walk :: "jsstring \<Rightarrow> walk" where
  "app_walk d =
     (if d = js ''/app/routes''
      then yields [js ''/app/routes/index.tsx'', js ''/app/routes/about.tsx''] Done
      else if d = js ''/app/islands''
      then yields [js ''/app/islands/Counter.tsx''] Done
      else if d = js ''/clash/routes''
      then yields [js ''/clash/routes/b.ts'', js ''/clash/routes/a/foo.ts'',
                   js ''/clash/routes/a/foo.tsx'', js ''/clash/routes/c.ts''] Done
      else if d = js ''/broken/routes''
      then yields [js ''/broken/routes/index.tsx''] (Throws (IOFailure (js ''EIO'')))
      else Throws NotFound)"

definition app_host :: host where
  "app_host =
     \<lparr>stat = app_stat, walk = app_walk, relative = relative_below, join = posix_join,
      formatter = (\<lambda>text. Exited 0 text), writeTextFile = (\<lambda>path text. None),
      versionGteMin = True, execPathHomebrew = False, argsIncludeBuild = False,
      islandsRejectFirst = False, handoff = None\<rparr>"

definition world0 :: world where
  "world0 = \<lparr>FRSH_DEV_PREVIOUS_MANIFEST = None, files = Map.empty, trace = []\<rparr>"

subsection \<open>Properties of generate and dev\<close>

lemma arraysEqual_loop_array:
  "length a = length bs \<Longrightarrow>
   arraysEqual_loop a (Some (JArray bs)) i = Inr (drop i (map JString a) = drop i bs)"
proof (induction a "Some (JArray bs)" i rule: arraysEqual_loop.induct)
  case (1 a i)
  show ?case
  proof (cases "i < length a")
    case True
    then have a: "drop i (map JString a) = JString (a ! i) # drop (Suc i) (map JString a)"
      and b: "drop i bs = bs ! i # drop (Suc i) bs"
      using "1.prems" by (simp_all add: Cons_nth_drop_Suc [symmetric])
    have e: "element (Some (JArray bs)) i = Inr (Some (bs ! i))"
      using True "1.prems" by (simp add: element_def)
    show ?thesis
    proof (cases "JString (a ! i) = bs ! i")
      case same: True
      then show ?thesis
        using True "1.hyps" [OF True e] "1.prems"
        by (subst arraysEqual_loop.simps) (simp add: e a b)
    next
      case False
      then show ?thesis
        using True by (subst arraysEqual_loop.simps) (simp add: e a b)
    qed
  next
    case False
    then show ?thesis
      using "1.prems" by (subst arraysEqual_loop.simps) simp
  qed
qed

lemma arraysEqual_array: "arraysEqual a (Some (JArray bs)) = Inr (map JString a = bs)"
proof (cases "length a = length bs")
  case True
  then show ?thesis
    by (simp add: arraysEqual_def length_differs_def arraysEqual_loop_array)
next
  case False
  then have "map JString a \<noteq> bs"
    by auto
  with False show ?thesis
    by (simp add: arraysEqual_def length_differs_def)
qed

lemma arraysEqual_undefined: "arraysEqual a None = Inl TypeError"
  by (simp add: arraysEqual_def length_differs_def)

lemma manifestChanged_arrays:
  assumes "named_property cur (js ''routes'') = Inr (Some (JArray rs))"
    and "named_property cur (js ''islands'') = Inr (Some (JArray ils))"
  shows "manifestChanged new cur
         = Inr (map JString (routes new) \<noteq> rs \<or> map JString (islands new) \<noteq> ils)"
  using assms by (simp add: manifestChanged_def arraysEqual_array)

lemma manifestChanged_no_routes:
  assumes "named_property cur (js ''routes'') = Inr None"
  shows "manifestChanged new cur = Inl TypeError"
  using assms by (simp add: manifestChanged_def arraysEqual_undefined)

lemma manifest_json_properties:
  "named_property (manifest_json m) (js ''routes'') = Inr (Some (JArray (map JString (routes m))))"
  "named_property (manifest_json m) (js ''islands'') = Inr (Some (JArray (map JString (islands m))))"
  by (simp_all add: named_property_def manifest_json_def lookup_def js_def)

lemma empty_object_properties:
  "named_property (JObject [(js ''islands'', JArray []), (js ''routes'', JArray [])]) (js ''routes'')
   = Inr (Some (JArray []))"
  "named_property (JObject [(js ''islands'', JArray []), (js ''routes'', JArray [])]) (js ''islands'')
   = Inr (Some (JArray []))"
  by (simp_all add: named_property_def lookup_def js_def)



lemma digit_of_nat:
  assumes "d < 10"
  shows "is_digit (of_nat (48 + d))" and "unat (of_nat (48 + d) :: code_unit) - 48 = d"
    and "(of_nat (48 + d) :: code_unit) = 48 \<longleftrightarrow> d = 0"
proof -
  have u: "unat (of_nat (48 + d) :: code_unit) = 48 + d"
    using assms by (simp add: unat_of_nat del: of_nat_add)
  show "is_digit (of_nat (48 + d))"
    using assms unfolding is_digit_def word_le_nat_alt u by simp
  show "unat (of_nat (48 + d) :: code_unit) - 48 = d"
    unfolding u by simp
  have "(of_nat (48 + d) :: code_unit) = 48 \<longleftrightarrow> unat (of_nat (48 + d) :: code_unit) = unat (48 :: code_unit)"
    by (simp only: word_unat_eq_iff)
  then show "(of_nat (48 + d) :: code_unit) = 48 \<longleftrightarrow> d = 0"
    unfolding u by simp
qed

lemma digits_value_snoc: "digits_value (ds @ [d]) = 10 * digits_value ds + (unat d - 48)"
  by (simp add: digits_value_def)

lemma decimal_digits:
  "(\<forall>c \<in> set (decimal n). is_digit c) \<and> digits_value (decimal n) = n \<and> decimal n \<noteq> []
   \<and> (0 < n \<longrightarrow> hd (decimal n) \<noteq> 48)"
proof (induction n rule: decimal.induct)
  case (1 n)
  show ?case
  proof (cases "n < 10")
    case True
    then show ?thesis
      using digit_of_nat [OF True]
      by (subst (1 2 3 4) decimal.simps) (simp add: digits_value_def)
  next
    case False
    then have q: "0 < n div 10" and r: "n mod 10 < 10"
      by simp_all
    have d: "decimal n = decimal (n div 10) @ [of_nat (48 + n mod 10)]"
      using False by (subst decimal.simps) simp
    show ?thesis
      using "1.IH" [OF False] q digit_of_nat [OF r]
      by (simp add: d digits_value_snoc)
  qed
qed

lemma decimal_small: "n < 10 \<Longrightarrow> decimal n = [of_nat (48 + n)]"
  by (subst decimal.simps) simp

lemma map_index_eq_map:
  "map_index f i xs = map (\<lambda>k. f (xs ! k) (i + k)) [0..<length xs]"
proof (induction xs arbitrary: i)
  case Nil
  show ?case by simp
next
  case (Cons x xs)
  have "[0..<length (x # xs)] = 0 # map Suc [0..<length xs]"
    by (simp add: upt_conv_Cons map_Suc_upt del: upt_Suc)
  then show ?case
    by (simp add: Cons.IH comp_def del: upt_Suc)
qed

fun is_env_event :: "event \<Rightarrow> bool" where
  "is_env_event EnvGet = True"
| "is_env_event (EnvSet s) = True"
| "is_env_event e = False"

fun is_write_event :: "event \<Rightarrow> bool" where
  "is_write_event (WriteTextFile p t) = True"
| "is_write_event e = False"

definition events_since :: "world \<Rightarrow> world \<Rightarrow> event list" where
  "events_since w w' = drop (length (trace w)) (trace w')"

lemma generate_trace:
  "\<exists>es. trace (snd (generate h d m w)) = trace w @ Spawn # es
        \<and> (\<forall>e \<in> set es. \<not> is_env_event e)"
  by (auto simp: generate_def Let_def log_def split: fmt_run.splits option.splits)

lemma generate_env:
  "FRSH_DEV_PREVIOUS_MANIFEST (snd (generate h d m w)) = FRSH_DEV_PREVIOUS_MANIFEST w"
  by (auto simp: generate_def Let_def log_def split: fmt_run.splits option.splits)

lemma dispatch_world:
  "\<exists>e. snd (dispatch h d ep w) = log e w \<and> \<not> is_env_event e \<and> \<not> is_write_event e \<and> e \<noteq> Spawn"
  by (auto simp: dispatch_def Let_def split: option.splits)

lemma generate_not_run:
  "formatter h (output_text h m) = SpawnThrows e \<Longrightarrow> generate h d m w = (Inl e, log Spawn w)"
  "formatter h (output_text h m) = PipeThrows e \<Longrightarrow>
     generate h d m w = (Inl e, log (PipeTo (output_text h m)) (log Spawn w))"
  "formatter h (output_text h m) = OutputThrows e \<Longrightarrow>
     generate h d m w = (Inl e, log ReadOutput (log (PipeTo (output_text h m)) (log Spawn w)))"
  by (simp_all add: generate_def Let_def)

lemma generate_exited:
  assumes "formatter h (output_text h m) = Exited status stdout"
    and "writeTextFile h (join h d (js ''./fresh.gen.ts'')) stdout = None"
  shows "generate h d m w =
     (Inr (),
      w\<lparr>files := (files w)(join h d (js ''./fresh.gen.ts'') \<mapsto> stdout),
        trace := trace w @ [Spawn, PipeTo (output_text h m), ReadOutput,
                   WriteTextFile (join h d (js ''./fresh.gen.ts'')) stdout,
                   ConsoleLog (generated_message m)]\<rparr>)"
  using assms by (simp add: generate_def Let_def log_def)

text \<open>
  Claim C1, as the code has it. When the formatter cannot be spawned, or piping the text
  to it or collecting its output fails, \<open>generate\<close> fails with that error and writes no
  file. When the subprocess runs to its end, \<open>generate\<close> writes what the subprocess
  printed on its standard output to \<^verbatim>\<open>fresh.gen.ts\<close>, whatever the exit status and also
  when that output is empty.
\<close>

theorem generate_formatter_outcomes:
  "(formatter h (output_text h m) = SpawnThrows e \<or> formatter h (output_text h m) = PipeThrows e
      \<or> formatter h (output_text h m) = OutputThrows e
    \<longrightarrow> fst (generate h d m w) = Inl e
        \<and> files (snd (generate h d m w)) = files w
        \<and> (\<forall>ev \<in> set (trace (snd (generate h d m w))). is_write_event ev \<longrightarrow> ev \<in> set (trace w)))
   \<and> (formatter h (output_text h m) = Exited status stdout
        \<and> writeTextFile h (join h d (js ''./fresh.gen.ts'')) stdout = None
    \<longrightarrow> fst (generate h d m w) = Inr ()
        \<and> files (snd (generate h d m w)) = (files w)(join h d (js ''./fresh.gen.ts'') \<mapsto> stdout))"
  by (auto simp: generate_not_run generate_exited log_def)

text \<open>
  Claim C6, as the code has it. The text \<open>generate\<close> renders begins with the header,
  three comment lines and an empty line; then come one import per route bound to \<open>$0\<close>,
  \<open>$1\<close>, \<open>\<dots>\<close> in the order of the manifest, one import per island bound to \<open>$$0\<close>, \<open>$$1\<close>,
  \<open>\<dots>\<close>, and the registry object whose \<open>routes\<close> and \<open>islands\<close> map the quoted import
  specifier of each entry to its binding in the same order, with the field \<open>baseUrl\<close>.
  The index \<open>i\<close> of a binding is written \<open>decimal i\<close>, the decimal numeral of \<open>i\<close>: digits
  only, of value \<open>i\<close>, a single digit below ten and no leading zero from ten on. The
  rendered text is piped to the formatter; when the formatter runs to its end and the
  write succeeds, what is written to \<^verbatim>\<open>fresh.gen.ts\<close> in the project directory, replacing
  what the file held, is the text the formatter printed, which need not be the rendered
  one.
\<close>

theorem generate_structure:
  "output_text h m =
     js ''// DO NOT EDIT. This file is generated by Fresh.'' @ [CHAR_NEWLINE]
     @ js ''// This file SHOULD be checked into source version control.'' @ [CHAR_NEWLINE]
     @ js ''// This file is automatically updated during development when running ''
     @ [CHAR_BACKTICK] @ js ''dev.ts'' @ [CHAR_BACKTICK] @ js ''.'' @ [CHAR_NEWLINE]
     @ [CHAR_NEWLINE]
     @ join_with [CHAR_NEWLINE]
         (map (\<lambda>i. js ''import * as $'' @ decimal i @ js '' from '' @ [CHAR_QUOTE]
                @ toImportSpecifier (join h (js ''routes'') (routes m ! i))
                @ [CHAR_QUOTE] @ js '';'') [0..<length (routes m)])
     @ [CHAR_NEWLINE]
     @ join_with [CHAR_NEWLINE]
         (map (\<lambda>i. js ''import * as $$'' @ decimal i @ js '' from '' @ [CHAR_QUOTE]
                @ toImportSpecifier (join h (js ''islands'') (islands m ! i))
                @ [CHAR_QUOTE] @ js '';'') [0..<length (islands m)])
     @ [CHAR_NEWLINE, CHAR_NEWLINE]
     @ js ''const manifest = {'' @ [CHAR_NEWLINE]
     @ js ''  routes: {'' @ [CHAR_NEWLINE]
     @ js ''    ''
     @ join_with (CHAR_NEWLINE # js ''    '')
         (map (\<lambda>i. QuoteJSONString (toImportSpecifier (join h (js ''routes'') (routes m ! i)))
                @ js '': $'' @ decimal i @ js '','') [0..<length (routes m)])
     @ [CHAR_NEWLINE]
     @ js ''  },'' @ [CHAR_NEWLINE]
     @ js ''  islands: {'' @ [CHAR_NEWLINE]
     @ js ''    ''
     @ join_with (CHAR_NEWLINE # js ''    '')
         (map (\<lambda>i. QuoteJSONString (toImportSpecifier (join h (js ''islands'') (islands m ! i)))
                @ js '': $$'' @ decimal i @ js '','') [0..<length (islands m)])
     @ [CHAR_NEWLINE]
     @ js ''  },'' @ [CHAR_NEWLINE]
     @ js ''  baseUrl: import.meta.url,'' @ [CHAR_NEWLINE]
     @ js ''};'' @ [CHAR_NEWLINE, CHAR_NEWLINE]
     @ js ''export default manifest;'' @ [CHAR_NEWLINE]
   \<and> take 4 (split_on CHAR_NEWLINE (output_text h m)) =
       [js ''// DO NOT EDIT. This file is generated by Fresh.'',
        js ''// This file SHOULD be checked into source version control.'',
        js ''// This file is automatically updated during development when running ''
          @ [CHAR_BACKTICK] @ js ''dev.ts'' @ [CHAR_BACKTICK] @ js ''.'',
        []]
   \<and> (\<forall>c \<in> set (decimal i). 48 \<le> c \<and> c \<le> 57)
   \<and> foldl (\<lambda>n d. 10 * n + (unat d - 48)) 0 (decimal i) = i
   \<and> (i < 10 \<longrightarrow> length (decimal i) = 1)
   \<and> (10 \<le> i \<longrightarrow> hd (decimal i) \<noteq> 48)
   \<and> (formatter h (output_text h m) = Exited status stdout
        \<and> writeTextFile h (join h directory (js ''./fresh.gen.ts'')) stdout = None
      \<longrightarrow> fst (generate h directory m w) = Inr ()
         \<and> events_since w (snd (generate h directory m w)) =
             [Spawn, PipeTo (output_text h m), ReadOutput,
              WriteTextFile (join h directory (js ''./fresh.gen.ts'')) stdout,
              ConsoleLog (generated_message m)]
         \<and> files (snd (generate h directory m w)) =
             (files w)(join h directory (js ''./fresh.gen.ts'') \<mapsto> stdout))"
proof -
  have rendered: "output_text h m =
     js ''// DO NOT EDIT. This file is generated by Fresh.'' @ [CHAR_NEWLINE]
     @ js ''// This file SHOULD be checked into source version control.'' @ [CHAR_NEWLINE]
     @ js ''// This file is automatically updated during development when running ''
     @ [CHAR_BACKTICK] @ js ''dev.ts'' @ [CHAR_BACKTICK] @ js ''.'' @ [CHAR_NEWLINE]
     @ [CHAR_NEWLINE]
     @ join_with [CHAR_NEWLINE]
         (map (\<lambda>i. js ''import * as $'' @ decimal i @ js '' from '' @ [CHAR_QUOTE]
                @ toImportSpecifier (join h (js ''routes'') (routes m ! i))
                @ [CHAR_QUOTE] @ js '';'') [0..<length (routes m)])
     @ [CHAR_NEWLINE]
     @ join_with [CHAR_NEWLINE]
         (map (\<lambda>i. js ''import * as $$'' @ decimal i @ js '' from '' @ [CHAR_QUOTE]
                @ toImportSpecifier (join h (js ''islands'') (islands m ! i))
                @ [CHAR_QUOTE] @ js '';'') [0..<length (islands m)])
     @ [CHAR_NEWLINE, CHAR_NEWLINE]
     @ js ''const manifest = {'' @ [CHAR_NEWLINE]
     @ js ''  routes: {'' @ [CHAR_NEWLINE]
     @ js ''    ''
     @ join_with (CHAR_NEWLINE # js ''    '')
         (map (\<lambda>i. QuoteJSONString (toImportSpecifier (join h (js ''routes'') (routes m ! i)))
                @ js '': $'' @ decimal i @ js '','') [0..<length (routes m)])
     @ [CHAR_NEWLINE]
     @ js ''  },'' @ [CHAR_NEWLINE]
     @ js ''  islands: {'' @ [CHAR_NEWLINE]
     @ js ''    ''
     @ join_with (CHAR_NEWLINE # js ''    '')
         (map (\<lambda>i. QuoteJSONString (toImportSpecifier (join h (js ''islands'') (islands m ! i)))
                @ js '': $$'' @ decimal i @ js '','') [0..<length (islands m)])
     @ [CHAR_NEWLINE]
     @ js ''  },'' @ [CHAR_NEWLINE]
     @ js ''  baseUrl: import.meta.url,'' @ [CHAR_NEWLINE]
     @ js ''};'' @ [CHAR_NEWLINE, CHAR_NEWLINE]
     @ js ''export default manifest;'' @ [CHAR_NEWLINE]"
    unfolding output_text_def header_def map_index_eq_map route_import_def island_import_def
      route_entry_def island_entry_def
    by (simp del: upt_Suc)
  have lines: "take 4 (split_on CHAR_NEWLINE (output_text h m)) =
       [js ''// DO NOT EDIT. This file is generated by Fresh.'',
        js ''// This file SHOULD be checked into source version control.'',
        js ''// This file is automatically updated during development when running ''
          @ [CHAR_BACKTICK] @ js ''dev.ts'' @ [CHAR_BACKTICK] @ js ''.'',
        []]"
  proof -
    let ?l1 = "js ''// DO NOT EDIT. This file is generated by Fresh.''"
    let ?l2 = "js ''// This file SHOULD be checked into source version control.''"
    let ?l3 = "js ''// This file is automatically updated during development when running ''
          @ [CHAR_BACKTICK] @ js ''dev.ts'' @ [CHAR_BACKTICK] @ js ''.''"
    have n: "CHAR_NEWLINE \<notin> set ?l1" "CHAR_NEWLINE \<notin> set ?l2" "CHAR_NEWLINE \<notin> set ?l3"
      by (simp_all add: js_def CHAR_NEWLINE_def CHAR_BACKTICK_def)
    obtain rest where r: "output_text h m
        = ?l1 @ CHAR_NEWLINE # (?l2 @ CHAR_NEWLINE # (?l3 @ CHAR_NEWLINE # ([] @ CHAR_NEWLINE # rest)))"
      by (simp add: output_text_def header_def)
    have "split_on CHAR_NEWLINE (output_text h m)
          = [?l1] @ [?l2] @ [?l3] @ [[]] @ split_on CHAR_NEWLINE rest"
      unfolding r
      by (simp only: split_on_append_sep split_on_no_sep [OF n(1)] split_on_no_sep [OF n(2)]
          split_on_no_sep [OF n(3)] split_on.simps)
    then show ?thesis
      by simp
  qed
  have digits: "\<forall>c \<in> set (decimal i). 48 \<le> c \<and> c \<le> 57"
    and val: "foldl (\<lambda>n d. 10 * n + (unat d - 48)) 0 (decimal i) = i"
    and lead: "10 \<le> i \<longrightarrow> hd (decimal i) \<noteq> 48"
    using decimal_digits [of i] by (simp_all add: is_digit_def digits_value_def)
  have small: "i < 10 \<longrightarrow> length (decimal i) = 1"
    by (simp add: decimal_small)
  have run: "formatter h (output_text h m) = Exited status stdout
        \<and> writeTextFile h (join h directory (js ''./fresh.gen.ts'')) stdout = None
      \<longrightarrow> fst (generate h directory m w) = Inr ()
         \<and> events_since w (snd (generate h directory m w)) =
             [Spawn, PipeTo (output_text h m), ReadOutput,
              WriteTextFile (join h directory (js ''./fresh.gen.ts'')) stdout,
              ConsoleLog (generated_message m)]
         \<and> files (snd (generate h directory m w)) =
             (files w)(join h directory (js ''./fresh.gen.ts'') \<mapsto> stdout)"
    by (simp add: generate_exited events_since_def)
  from rendered lines digits val small lead run show ?thesis
    by (intro conjI)
qed

lemma dev_reached:
  assumes "ensureMinDenoVersion h = Inr ()"
    and "previous_manifest (FRSH_DEV_PREVIOUS_MANIFEST w) = Inr cur"
    and "collect h dir = Inr new"
  shows "dev h dir ep w =
     (let w3 = log (EnvSet (JSON_stringify_manifest new))
                 ((log (Stat (join h dir (js ''./islands'')))
                     (log (Stat (join h dir (js ''./routes''))) (log EnvGet w)))
                  \<lparr>FRSH_DEV_PREVIOUS_MANIFEST := Some (JSON_stringify_manifest new)\<rparr>)
      in case manifestChanged new cur of
           Inl e \<Rightarrow> (Inl e, w3)
         | Inr changed \<Rightarrow>
             if changed
             then (case generate h dir new w3 of
                     (Inl e, w4) \<Rightarrow> (Inl e, w4)
                   | (Inr u, w4) \<Rightarrow> dispatch h dir ep w4)
             else dispatch h dir ep w3)"
  using assms by (simp add: dev_def Let_def collect_traced_def)

lemma dev_effects:
  assumes "ensureMinDenoVersion h = Inr ()"
    and "previous_manifest (FRSH_DEV_PREVIOUS_MANIFEST w) = Inr cur"
    and "collect h dir = Inr new"
  shows "\<exists>es. trace (snd (dev h dir ep w))
               = trace w @ [EnvGet, Stat (join h dir (js ''./routes'')),
                    Stat (join h dir (js ''./islands'')), EnvSet (JSON_stringify_manifest new)] @ es
           \<and> (\<forall>e \<in> set es. \<not> is_env_event e)
           \<and> (Spawn \<in> set es) = (manifestChanged new cur = Inr True)
           \<and> (manifestChanged new cur \<noteq> Inr True
                \<longrightarrow> (\<forall>e \<in> set es. \<not> is_write_event e)
                   \<and> files (snd (dev h dir ep w)) = files w)
           \<and> (\<forall>e. manifestChanged new cur = Inl e \<longrightarrow> fst (dev h dir ep w) = Inl e)
           \<and> FRSH_DEV_PREVIOUS_MANIFEST (snd (dev h dir ep w))
               = Some (JSON_stringify_manifest new)"
proof -
  let ?s = "JSON_stringify_manifest new"
  let ?pre = "[EnvGet, Stat (join h dir (js ''./routes'')), Stat (join h dir (js ''./islands'')),
               EnvSet ?s]"
  let ?w3 = "log (EnvSet ?s)
               ((log (Stat (join h dir (js ''./islands'')))
                   (log (Stat (join h dir (js ''./routes''))) (log EnvGet w)))
                \<lparr>FRSH_DEV_PREVIOUS_MANIFEST := Some ?s\<rparr>)"
  have t3: "trace ?w3 = trace w @ ?pre"
    and e3: "FRSH_DEV_PREVIOUS_MANIFEST ?w3 = Some ?s" and f3: "files ?w3 = files w"
    by (simp_all add: log_def)
  note reached = dev_reached [OF assms, of ep]
  show ?thesis
  proof (cases "manifestChanged new cur")
    case (Inl err)
    then have "dev h dir ep w = (Inl err, ?w3)"
      using reached by (simp add: Let_def)
    then have "trace (snd (dev h dir ep w)) = trace w @ ?pre @ []"
      and "FRSH_DEV_PREVIOUS_MANIFEST (snd (dev h dir ep w)) = Some ?s"
      and "files (snd (dev h dir ep w)) = files w"
      and "fst (dev h dir ep w) = Inl err"
      using t3 e3 f3 by simp_all
    then show ?thesis
      using Inl by (intro exI [of _ "[]"]) simp
  next
    case (Inr changed)
    show ?thesis
    proof (cases changed)
      case False
      obtain e where e: "snd (dispatch h dir ep ?w3) = log e ?w3" "\<not> is_env_event e"
        "\<not> is_write_event e" "e \<noteq> Spawn"
        using dispatch_world [of h dir ep ?w3] by blast
      have "dev h dir ep w = dispatch h dir ep ?w3"
        using reached Inr False by (simp add: Let_def)
      then have "trace (snd (dev h dir ep w)) = trace w @ ?pre @ [e]"
        and "FRSH_DEV_PREVIOUS_MANIFEST (snd (dev h dir ep w)) = Some ?s"
        and "files (snd (dev h dir ep w)) = files w"
        using e(1) t3 e3 f3 by (simp_all add: log_def)
      then show ?thesis
        using e(2-4) Inr False by (intro exI [of _ "[e]"]) simp
    next
      case True
      obtain r w4 where g: "generate h dir new ?w3 = (r, w4)"
        by (cases "generate h dir new ?w3")
      obtain es where es: "trace w4 = trace ?w3 @ Spawn # es" "\<forall>e \<in> set es. \<not> is_env_event e"
        using generate_trace [of h dir new ?w3] g by auto
      have e4: "FRSH_DEV_PREVIOUS_MANIFEST w4 = Some ?s"
        using generate_env [of h dir new ?w3] g e3 by simp
      show ?thesis
      proof (cases r)
        case (Inl err)
        then have "dev h dir ep w = (Inl err, w4)"
          using reached Inr True g by (simp add: Let_def)
        then have "trace (snd (dev h dir ep w)) = trace w @ ?pre @ (Spawn # es)"
          and "FRSH_DEV_PREVIOUS_MANIFEST (snd (dev h dir ep w)) = Some ?s"
          using es(1) e4 t3 by simp_all
        then show ?thesis
          using es(2) Inr True by (intro exI [of _ "Spawn # es"]) simp
      next
        case ok: (Inr u)
        obtain e where e: "snd (dispatch h dir ep w4) = log e w4" "\<not> is_env_event e"
          using dispatch_world [of h dir ep w4] by blast
        have "dev h dir ep w = dispatch h dir ep w4"
          using reached Inr True g ok by (simp add: Let_def)
        then have "trace (snd (dev h dir ep w)) = trace w @ ?pre @ (Spawn # es @ [e])"
          and "FRSH_DEV_PREVIOUS_MANIFEST (snd (dev h dir ep w)) = Some ?s"
          using e(1) es(1) e4 t3 by (simp_all add: log_def)
        then show ?thesis
          using es(2) e(2) Inr True by (intro exI [of _ "Spawn # es @ [e]"]) simp
      qed
    qed
  qed
qed

lemma previous_manifest_stringify:
  "previous_manifest (Some (JSON_stringify_manifest m)) = Inr (manifest_json m)"
  by (simp add: previous_manifest_def JSON_roundtrip) (simp add: JSON_stringify_manifest_def js_def)

lemma dev_aborted:
  assumes "isl (ensureMinDenoVersion h) \<or> isl (previous_manifest (FRSH_DEV_PREVIOUS_MANIFEST w))
           \<or> isl (collect h dir)"
  shows "files (snd (dev h dir ep w)) = files w
         \<and> FRSH_DEV_PREVIOUS_MANIFEST (snd (dev h dir ep w)) = FRSH_DEV_PREVIOUS_MANIFEST w
         \<and> set (events_since w (snd (dev h dir ep w)))
             \<subseteq> {EnvGet, Stat (join h dir (js ''./routes'')), Stat (join h dir (js ''./islands''))}"
proof (cases "ensureMinDenoVersion h")
  case (Inl e)
  then show ?thesis
    by (simp add: dev_def events_since_def)
next
  case v: (Inr u)
  show ?thesis
  proof (cases "previous_manifest (FRSH_DEV_PREVIOUS_MANIFEST w)")
    case (Inl e)
    with v show ?thesis
      by (simp add: dev_def events_since_def log_def Let_def)
  next
    case p: (Inr cur)
    with v assms obtain e where "collect h dir = Inl e"
      by (cases "collect h dir") auto
    with v p show ?thesis
      by (simp add: dev_def events_since_def log_def Let_def collect_traced_def)
  qed
qed

text \<open>
  Claim C2, as the code has it. In a cycle that collects a manifest, the generator runs
  (the formatter is spawned) exactly when the comparison of lines 192-194 returns and
  reports a change. When the previous snapshot is absent or parses to a value with
  arrays under \<open>routes\<close> and \<open>islands\<close>, that is exactly when the routes or the islands of
  the new manifest differ from those arrays; an array of the snapshot equals a sequence
  of paths when it has the same length and holds, at every index, the string of that
  path, and this is what \<open>arraysEqual\<close> computes. When they are equal, the cycle writes
  no file and spawns no formatter. A cycle in which the version check, the parse of the
  snapshot or a scan fails does neither. When the snapshot parses to \<^verbatim>\<open>null\<close> or to a
  value without \<open>routes\<close>, the cycle stores the new snapshot and then fails with a
  \<open>TypeError\<close> in the comparison: no file is written and no formatter spawned.
\<close>

theorem dev_regenerates_iff_changed:
  "(ensureMinDenoVersion h = Inr ()
      \<and> previous_manifest (FRSH_DEV_PREVIOUS_MANIFEST w) = Inr cur
      \<and> collect h dir = Inr new
    \<longrightarrow> (Spawn \<in> set (events_since w (snd (dev h dir ep w))))
          = (manifestChanged new cur = Inr True))
   \<and> (ensureMinDenoVersion h = Inr ()
      \<and> previous_manifest (FRSH_DEV_PREVIOUS_MANIFEST w) = Inr cur
      \<and> named_property cur (js ''routes'') = Inr (Some (JArray rs))
      \<and> named_property cur (js ''islands'') = Inr (Some (JArray ils))
      \<and> collect h dir = Inr new
    \<longrightarrow> (Spawn \<in> set (events_since w (snd (dev h dir ep w))))
          = (map JString (routes new) \<noteq> rs \<or> map JString (islands new) \<noteq> ils)
        \<and> (map JString (routes new) = rs \<and> map JString (islands new) = ils
           \<longrightarrow> files (snd (dev h dir ep w)) = files w
              \<and> (\<forall>e \<in> set (events_since w (snd (dev h dir ep w))).
                    e \<noteq> Spawn \<and> \<not> is_write_event e)))
   \<and> (isl (ensureMinDenoVersion h) \<or> isl (previous_manifest (FRSH_DEV_PREVIOUS_MANIFEST w))
        \<or> isl (collect h dir)
    \<longrightarrow> files (snd (dev h dir ep w)) = files w
        \<and> (\<forall>e \<in> set (events_since w (snd (dev h dir ep w))). e \<noteq> Spawn \<and> \<not> is_write_event e))
   \<and> (ensureMinDenoVersion h = Inr ()
      \<and> previous_manifest (FRSH_DEV_PREVIOUS_MANIFEST w) = Inr cur
      \<and> (cur = JNull \<or> named_property cur (js ''routes'') = Inr None)
      \<and> collect h dir = Inr new
    \<longrightarrow> fst (dev h dir ep w) = Inl TypeError
        \<and> FRSH_DEV_PREVIOUS_MANIFEST (snd (dev h dir ep w)) = Some (JSON_stringify_manifest new)
        \<and> files (snd (dev h dir ep w)) = files w
        \<and> (\<forall>e \<in> set (events_since w (snd (dev h dir ep w))). e \<noteq> Spawn \<and> \<not> is_write_event e))
   \<and> (map JString xs = ys) = (length xs = length ys \<and> (\<forall>i < length xs. JString (xs ! i) = ys ! i))
   \<and> arraysEqual xs (Some (JArray ys)) = Inr (map JString xs = ys)"
proof (intro conjI impI)
  assume a: "ensureMinDenoVersion h = Inr ()
      \<and> previous_manifest (FRSH_DEV_PREVIOUS_MANIFEST w) = Inr cur
      \<and> collect h dir = Inr new"
  obtain es where es:
    "trace (snd (dev h dir ep w))
       = trace w @ [EnvGet, Stat (join h dir (js ''./routes'')),
            Stat (join h dir (js ''./islands'')), EnvSet (JSON_stringify_manifest new)] @ es"
    "(Spawn \<in> set es) = (manifestChanged new cur = Inr True)"
    using a dev_effects [of h w cur dir new ep] by blast
  show "(Spawn \<in> set (events_since w (snd (dev h dir ep w))))
        = (manifestChanged new cur = Inr True)"
    using es(2) by (simp add: events_since_def es(1))
next
  assume a: "ensureMinDenoVersion h = Inr ()
      \<and> previous_manifest (FRSH_DEV_PREVIOUS_MANIFEST w) = Inr cur
      \<and> named_property cur (js ''routes'') = Inr (Some (JArray rs))
      \<and> named_property cur (js ''islands'') = Inr (Some (JArray ils))
      \<and> collect h dir = Inr new"
  let ?changed = "map JString (routes new) \<noteq> rs \<or> map JString (islands new) \<noteq> ils"
  have c: "manifestChanged new cur = Inr ?changed"
    using a by (simp add: manifestChanged_arrays)
  obtain es where es:
    "trace (snd (dev h dir ep w))
       = trace w @ [EnvGet, Stat (join h dir (js ''./routes'')),
            Stat (join h dir (js ''./islands'')), EnvSet (JSON_stringify_manifest new)] @ es"
    "(Spawn \<in> set es) = (manifestChanged new cur = Inr True)"
    "manifestChanged new cur \<noteq> Inr True
       \<longrightarrow> (\<forall>e \<in> set es. \<not> is_write_event e) \<and> files (snd (dev h dir ep w)) = files w"
    using a dev_effects [of h w cur dir new ep] by blast
  have ev: "events_since w (snd (dev h dir ep w))
            = [EnvGet, Stat (join h dir (js ''./routes'')),
               Stat (join h dir (js ''./islands'')), EnvSet (JSON_stringify_manifest new)] @ es"
    by (simp add: events_since_def es(1))
  show "(Spawn \<in> set (events_since w (snd (dev h dir ep w)))) = ?changed"
    using es(2) c by (auto simp: ev)
  assume u: "map JString (routes new) = rs \<and> map JString (islands new) = ils"
  then have n: "manifestChanged new cur \<noteq> Inr True"
    using c by simp
  with es(3) show "files (snd (dev h dir ep w)) = files w"
    by blast
  from n es(2,3) show "\<forall>e \<in> set (events_since w (snd (dev h dir ep w))).
      e \<noteq> Spawn \<and> \<not> is_write_event e"
    by (auto simp: ev)
next
  assume a: "isl (ensureMinDenoVersion h) \<or> isl (previous_manifest (FRSH_DEV_PREVIOUS_MANIFEST w))
        \<or> isl (collect h dir)"
  from dev_aborted [OF a, where ep = ep] show "files (snd (dev h dir ep w)) = files w"
    by blast
  from dev_aborted [OF a, where ep = ep]
  show "\<forall>e \<in> set (events_since w (snd (dev h dir ep w))). e \<noteq> Spawn \<and> \<not> is_write_event e"
    by auto
next
  assume a: "ensureMinDenoVersion h = Inr ()
      \<and> previous_manifest (FRSH_DEV_PREVIOUS_MANIFEST w) = Inr cur
      \<and> (cur = JNull \<or> named_property cur (js ''routes'') = Inr None)
      \<and> collect h dir = Inr new"
  then have c: "manifestChanged new cur = Inl TypeError"
    by (auto simp: manifestChanged_no_routes) (simp add: manifestChanged_def named_property_def)
  obtain es where es:
    "trace (snd (dev h dir ep w))
       = trace w @ [EnvGet, Stat (join h dir (js ''./routes'')),
            Stat (join h dir (js ''./islands'')), EnvSet (JSON_stringify_manifest new)] @ es"
    "(Spawn \<in> set es) = (manifestChanged new cur = Inr True)"
    "manifestChanged new cur \<noteq> Inr True
       \<longrightarrow> (\<forall>e \<in> set es. \<not> is_write_event e) \<and> files (snd (dev h dir ep w)) = files w"
    "\<forall>e. manifestChanged new cur = Inl e \<longrightarrow> fst (dev h dir ep w) = Inl e"
    "FRSH_DEV_PREVIOUS_MANIFEST (snd (dev h dir ep w)) = Some (JSON_stringify_manifest new)"
    using a dev_effects [of h w cur dir new ep] by blast
  have ev: "events_since w (snd (dev h dir ep w))
            = [EnvGet, Stat (join h dir (js ''./routes'')),
               Stat (join h dir (js ''./islands'')), EnvSet (JSON_stringify_manifest new)] @ es"
    by (simp add: events_since_def es(1))
  from es(4) c show "fst (dev h dir ep w) = Inl TypeError"
    by simp
  from es(5) show "FRSH_DEV_PREVIOUS_MANIFEST (snd (dev h dir ep w))
      = Some (JSON_stringify_manifest new)" .
  from es(3) c show "files (snd (dev h dir ep w)) = files w"
    by simp
  from es(2,3) c show "\<forall>e \<in> set (events_since w (snd (dev h dir ep w))).
      e \<noteq> Spawn \<and> \<not> is_write_event e"
    by (auto simp: ev)
next
  show "(map JString xs = ys)
        = (length xs = length ys \<and> (\<forall>i < length xs. JString (xs ! i) = ys ! i))"
    by (auto simp: list_eq_iff_nth_eq)
next
  show "arraysEqual xs (Some (JArray ys)) = Inr (map JString xs = ys)"
    by (rule arraysEqual_array)
qed


subsection \<open>The properties on the POSIX host\<close>

definition app_manifest :: manifest where
  "app_manifest = \<lparr>routes = [js ''about.tsx'', js ''index.tsx''], islands = [js ''Counter.tsx'']\<rparr>"

lemmas host_eval =
  app_host_def app_stat_def app_walk_def relative_below_def posix_join_def
  collectDir_def logical_name_def fileNameWithoutExt_def conflict_message_def

lemma app_join [simp]:
  "join app_host (js ''/app'') (js ''./routes'') = js ''/app/routes''"
  "join app_host (js ''/app'') (js ''./islands'') = js ''/app/islands''"
  "join app_host (js ''/app'') (js ''./fresh.gen.ts'') = js ''/app/fresh.gen.ts''"
  "join app_host (js ''/app'') (js ''fresh.gen.ts'') = js ''/app/fresh.gen.ts''"
  by (simp_all add: app_host_def posix_join_def normalize_eval char_eval)

lemma app_routes: "collectDir app_host (js ''/app/routes'') = Inr [js ''about.tsx'', js ''index.tsx'']"
  by (simp add: host_eval char_eval)

lemma app_islands: "collectDir app_host (js ''/app/islands'') = Inr [js ''Counter.tsx'']"
  by (simp add: host_eval char_eval)

lemma app_collect: "collect app_host (js ''/app'') = Inr app_manifest"
  by (simp add: collect_def app_routes app_islands app_manifest_def)

lemma app_version: "ensureMinDenoVersion app_host = Inr ()"
  by (simp add: ensureMinDenoVersion_def app_host_def)

theorem collectDir_conflict_witness:
  "stat app_host (js ''/clash/routes'') = StatInfo True
   \<and> \<not> distinct (map (logical_name app_host (js ''/clash/routes''))
         (visited (walk app_host (js ''/clash/routes''))))
   \<and> (\<exists>pre e rest. walk app_host (js ''/clash/routes'') = yields pre (Yield e rest)
         \<and> collectDir app_host (js ''/clash/routes'') =
             Inl (Error (js ''Route conflict detected. Multiple files have the same name: ''
                     @ js ''/clash/routes'' @ logical_name app_host (js ''/clash/routes'') e)))
   \<and> collectDir app_host (js ''/clash/routes'') =
       Inl (Error (js ''Route conflict detected. Multiple files have the same name: /clash/routesa/foo''))"
proof -
  have s: "stat app_host (js ''/clash/routes'') = StatInfo True"
    by (simp add: host_eval char_eval)
  have d: "\<not> distinct (map (logical_name app_host (js ''/clash/routes''))
         (visited (walk app_host (js ''/clash/routes''))))"
    by (simp add: host_eval char_eval)
  have v: "collectDir app_host (js ''/clash/routes'') =
       Inl (Error (js ''Route conflict detected. Multiple files have the same name: /clash/routesa/foo''))"
    by (simp add: host_eval char_eval)
  from collectDir_conflict [OF s d] s d v show ?thesis
    by blast
qed

theorem collectDir_root_check_witness:
  "collectDir app_host (js ''/nowhere/routes'') = Inr []
   \<and> collectDir app_host (js ''/file/routes'') = Inr []
   \<and> collectDir app_host (js ''/locked/routes'') = Inl PermissionDenied
   \<and> collectDir app_host (js ''/broken/routes'') = Inl (IOFailure (js ''EIO''))"
proof -
  have a: "stat app_host (js ''/nowhere/routes'') = StatThrows NotFound"
    and b: "stat app_host (js ''/file/routes'') = StatInfo False"
    and c: "stat app_host (js ''/locked/routes'') = StatThrows PermissionDenied"
    and d: "stat app_host (js ''/broken/routes'') = StatInfo True"
    by (simp_all add: host_eval char_eval)
  have w: "walk app_host (js ''/broken/routes'')
           = yields [js ''/broken/routes/index.tsx''] (Throws (IOFailure (js ''EIO'')))"
    by (simp add: host_eval char_eval)
  have n: "distinct (map (logical_name app_host (js ''/broken/routes''))
             [js ''/broken/routes/index.tsx''])"
    by simp
  show ?thesis
    using collectDir_root_check [of app_host "js ''/nowhere/routes''" PermissionDenied "[]"]
      collectDir_root_check [of app_host "js ''/file/routes''" PermissionDenied "[]"]
      collectDir_root_check [of app_host "js ''/locked/routes''" PermissionDenied "[]"]
      collectDir_root_check [of app_host "js ''/broken/routes''" "IOFailure (js ''EIO'')"
        "[js ''/broken/routes/index.tsx'']"]
      a b c d w n
    by simp
qed

theorem collectDir_deterministic_witness:
  "collectDir app_host (js ''/app/routes'') = Inr [js ''about.tsx'', js ''index.tsx'']
   \<and> collectDir
        (app_host\<lparr>walk := \<lambda>d. yields [js ''/app/routes/about.tsx'', js ''/app/routes/index.tsx''] Done\<rparr>)
        (js ''/app/routes'') = Inr [js ''about.tsx'', js ''index.tsx'']
   \<and> sorted [js ''about.tsx'', js ''index.tsx'']"
proof -
  have s: "stat app_host (js ''/app/routes'') = StatInfo True"
    and w: "walk app_host (js ''/app/routes'')
            = yields [js ''/app/routes/index.tsx'', js ''/app/routes/about.tsx''] Done"
    by (simp_all add: host_eval char_eval)
  have m: "mset [js ''/app/routes/about.tsx'', js ''/app/routes/index.tsx'']
           = mset [js ''/app/routes/index.tsx'', js ''/app/routes/about.tsx'']"
    by simp
  note t = collectDir_deterministic [OF s w m app_routes]
  from t have "sorted [js ''about.tsx'', js ''index.tsx'']"
    by (elim conjE)
  moreover from t have "collectDir
        (app_host\<lparr>walk := \<lambda>d. yields [js ''/app/routes/about.tsx'', js ''/app/routes/index.tsx''] Done\<rparr>)
        (js ''/app/routes'') = Inr [js ''about.tsx'', js ''index.tsx'']"
    by (elim conjE)
  ultimately show ?thesis
    using app_routes by (intro conjI)
qed

text \<open>
  Two more hosts: one whose formatter exits with status 1 and prints nothing, one whose
  formatter cannot be spawned. \<open>world_with_registry\<close> holds a registry file; \<open>world1\<close> is
  the state after a first cycle on the POSIX host.
\<close>

definition failing_formatter_host :: host where
  "failing_formatter_host = app_host\<lparr>formatter := \<lambda>text. Exited 1 []\<rparr>"

definition missing_formatter_host :: host where
  "missing_formatter_host = app_host\<lparr>formatter := \<lambda>text. SpawnThrows NotFound\<rparr>"

definition world_with_registry :: world where
  "world_with_registry =
     world0\<lparr>files := [js ''/app/fresh.gen.ts'' \<mapsto> js ''export default {};'']\<rparr>"

definition world1 :: world where
  "world1 = snd (dev app_host (js ''/app'') (js ''file:///app/main.ts'') world0)"

lemma app_host_fields [simp]:
  "writeTextFile app_host p t = None"
  "formatter app_host t = Exited 0 t"
  by (simp_all add: app_host_def)

lemma formatter_hosts [simp]:
  "join failing_formatter_host = join app_host"
  "join missing_formatter_host = join app_host"
  "writeTextFile failing_formatter_host p t = None"
  "formatter failing_formatter_host t = Exited 1 []"
  "formatter missing_formatter_host t = SpawnThrows NotFound"
  by (simp_all add: failing_formatter_host_def missing_formatter_host_def app_host_def)

text \<open>
  A formatter that exits with status 1 and prints nothing: \<open>generate\<close> returns normally,
  and the registry file that held a module is now empty.
\<close>

theorem generate_failed_formatter_counterexample:
  "formatter failing_formatter_host (output_text failing_formatter_host app_manifest) = Exited 1 []
   \<and> files world_with_registry (js ''/app/fresh.gen.ts'') = Some (js ''export default {};'')
   \<and> fst (generate failing_formatter_host (js ''/app'') app_manifest world_with_registry) = Inr ()
   \<and> files (snd (generate failing_formatter_host (js ''/app'') app_manifest world_with_registry))
        (js ''/app/fresh.gen.ts'') = Some []"
proof -
  have "generate failing_formatter_host (js ''/app'') app_manifest world_with_registry =
     (Inr (),
      world_with_registry\<lparr>files := (files world_with_registry)(js ''/app/fresh.gen.ts'' \<mapsto> []),
        trace := trace world_with_registry
          @ [Spawn, PipeTo (output_text failing_formatter_host app_manifest), ReadOutput,
             WriteTextFile (js ''/app/fresh.gen.ts'') [],
             ConsoleLog (generated_message app_manifest)]\<rparr>)"
    using generate_exited [of failing_formatter_host app_manifest 1 "[]" "js ''/app''"
        world_with_registry]
    by simp
  then show ?thesis
    by (simp add: world_with_registry_def)
qed

theorem generate_formatter_outcomes_witness:
  "fst (generate missing_formatter_host (js ''/app'') app_manifest world_with_registry) = Inl NotFound
   \<and> files (snd (generate missing_formatter_host (js ''/app'') app_manifest world_with_registry))
       = files world_with_registry
   \<and> fst (generate failing_formatter_host (js ''/app'') app_manifest world_with_registry) = Inr ()
   \<and> files (snd (generate failing_formatter_host (js ''/app'') app_manifest world_with_registry))
       = (files world_with_registry)(js ''/app/fresh.gen.ts'' \<mapsto> [])"
  using generate_formatter_outcomes [of missing_formatter_host app_manifest NotFound "js ''/app''"
      world_with_registry 0 "[]"]
    generate_formatter_outcomes [of failing_formatter_host app_manifest NotFound "js ''/app''"
      world_with_registry 1 "[]"]
  by simp


text \<open>
  The path \<^verbatim>\<open>.hidden/x.ts\<close>, which is \<^verbatim>\<open>join("routes", "../.hidden/x.ts")\<close>: it is
  normalized, it begins with neither \<open>./\<close> nor \<open>../\<close>, and its import specifier is the
  path itself, without \<open>./\<close>.
\<close>

theorem toImportSpecifier_hidden_counterexample:
  "posix_join (js ''routes'') (js ''../.hidden/x.ts'') = js ''.hidden/x.ts''
   \<and> posix_normalize (js ''.hidden/x.ts'') = js ''.hidden/x.ts''
   \<and> \<not> startsWith (posix_normalize (js ''.hidden/x.ts'')) (js ''./'')
   \<and> \<not> startsWith (posix_normalize (js ''.hidden/x.ts'')) (js ''../'')
   \<and> toImportSpecifier (js ''.hidden/x.ts'') = js ''.hidden/x.ts''
   \<and> \<not> startsWith (toImportSpecifier (js ''.hidden/x.ts'')) (js ''./'')"
  by (simp add: posix_join_def specifier_eval char_eval)

text \<open>
  The rendered text of the manifest of \<^verbatim>\<open>/app\<close>, code unit by code unit where the template
  has a line feed (10), a double quote (34) or a backtick (96).
\<close>

lemma app_output:
  "output_text app_host app_manifest =
     js ''// DO NOT EDIT. This file is generated by Fresh.'' @ [10]
     @ js ''// This file SHOULD be checked into source version control.'' @ [10]
     @ js ''// This file is automatically updated during development when running ''
     @ [96] @ js ''dev.ts'' @ [96] @ js ''.'' @ [10, 10]
     @ js ''import * as $0 from '' @ [34] @ js ''./routes/about.tsx'' @ [34] @ js '';'' @ [10]
     @ js ''import * as $1 from '' @ [34] @ js ''./routes/index.tsx'' @ [34] @ js '';'' @ [10]
     @ js ''import * as $$0 from '' @ [34] @ js ''./islands/Counter.tsx'' @ [34] @ js '';''
     @ [10, 10]
     @ js ''const manifest = {'' @ [10]
     @ js ''  routes: {'' @ [10]
     @ js ''    '' @ [34] @ js ''./routes/about.tsx'' @ [34] @ js '': $0,'' @ [10]
     @ js ''    '' @ [34] @ js ''./routes/index.tsx'' @ [34] @ js '': $1,'' @ [10]
     @ js ''  },'' @ [10]
     @ js ''  islands: {'' @ [10]
     @ js ''    '' @ [34] @ js ''./islands/Counter.tsx'' @ [34] @ js '': $$0,'' @ [10]
     @ js ''  },'' @ [10]
     @ js ''  baseUrl: import.meta.url,'' @ [10]
     @ js ''};'' @ [10, 10]
     @ js ''export default manifest;'' @ [10]"
  by (simp add: output_text_def header_def app_manifest_def route_import_def island_import_def
      route_entry_def island_entry_def decimal.simps app_host_def posix_join_def
      specifier_eval char_eval QuoteJSONString_def short_escape_def is_leading_surrogate_def
      is_trailing_surrogate_def CHAR_QUOTE_def CHAR_NEWLINE_def CHAR_BACKTICK_def)

theorem generate_structure_witness:
  "output_text app_host app_manifest =
     js ''// DO NOT EDIT. This file is generated by Fresh.'' @ [10]
     @ js ''// This file SHOULD be checked into source version control.'' @ [10]
     @ js ''// This file is automatically updated during development when running ''
     @ [96] @ js ''dev.ts'' @ [96] @ js ''.'' @ [10, 10]
     @ js ''import * as $0 from '' @ [34] @ js ''./routes/about.tsx'' @ [34] @ js '';'' @ [10]
     @ js ''import * as $1 from '' @ [34] @ js ''./routes/index.tsx'' @ [34] @ js '';'' @ [10]
     @ js ''import * as $$0 from '' @ [34] @ js ''./islands/Counter.tsx'' @ [34] @ js '';''
     @ [10, 10]
     @ js ''const manifest = {'' @ [10]
     @ js ''  routes: {'' @ [10]
     @ js ''    '' @ [34] @ js ''./routes/about.tsx'' @ [34] @ js '': $0,'' @ [10]
     @ js ''    '' @ [34] @ js ''./routes/index.tsx'' @ [34] @ js '': $1,'' @ [10]
     @ js ''  },'' @ [10]
     @ js ''  islands: {'' @ [10]
     @ js ''    '' @ [34] @ js ''./islands/Counter.tsx'' @ [34] @ js '': $$0,'' @ [10]
     @ js ''  },'' @ [10]
     @ js ''  baseUrl: import.meta.url,'' @ [10]
     @ js ''};'' @ [10, 10]
     @ js ''export default manifest;'' @ [10]
   \<and> take 4 (split_on 10 (output_text app_host app_manifest)) =
       [js ''// DO NOT EDIT. This file is generated by Fresh.'',
        js ''// This file SHOULD be checked into source version control.'',
        js ''// This file is automatically updated during development when running ''
          @ [96] @ js ''dev.ts'' @ [96] @ js ''.'',
        []]
   \<and> js ''//'' = [47, 47] \<and> js ''$0'' = [36, 48] \<and> js ''$$0'' = [36, 36, 48]
   \<and> decimal 12 = [49, 50]
   \<and> foldl (\<lambda>n d. 10 * n + (unat d - 48)) 0 (decimal 12) = 12
   \<and> hd (decimal 12) \<noteq> 48
   \<and> length (decimal 7) = 1
   \<and> fst (generate app_host (js ''/app'') app_manifest world0) = Inr ()
   \<and> files (snd (generate app_host (js ''/app'') app_manifest world0))
       = [js ''/app/fresh.gen.ts'' \<mapsto> output_text app_host app_manifest]
   \<and> events_since world0 (snd (generate app_host (js ''/app'') app_manifest world0)) =
       [Spawn, PipeTo (output_text app_host app_manifest), ReadOutput,
        WriteTextFile (js ''/app/fresh.gen.ts'') (output_text app_host app_manifest),
        ConsoleLog (generated_message app_manifest)]"
proof -
  have f: "formatter app_host (output_text app_host app_manifest)
           = Exited 0 (output_text app_host app_manifest)"
    by simp
  have w: "writeTextFile app_host (join app_host (js ''/app'') (js ''./fresh.gen.ts''))
             (output_text app_host app_manifest) = None"
    by simp
  note t = generate_structure [where h = app_host and m = app_manifest and i = 12
      and status = 0 and stdout = "output_text app_host app_manifest"
      and directory = "js ''/app''" and w = world0]
  note s = generate_structure [where h = app_host and m = app_manifest and i = 7
      and status = 0 and stdout = "output_text app_host app_manifest"
      and directory = "js ''/app''" and w = world0]
  have d: "decimal 12 = [49, 50]" "js ''//'' = [47, 47]" "js ''$0'' = [36, 48]"
    "js ''$$0'' = [36, 36, 48]"
    by (simp_all add: decimal.simps js_def)
  from t have "take 4 (split_on CHAR_NEWLINE (output_text app_host app_manifest)) =
       [js ''// DO NOT EDIT. This file is generated by Fresh.'',
        js ''// This file SHOULD be checked into source version control.'',
        js ''// This file is automatically updated during development when running ''
          @ [CHAR_BACKTICK] @ js ''dev.ts'' @ [CHAR_BACKTICK] @ js ''.'',
        []]"
    by (elim conjE)
  then have "take 4 (split_on 10 (output_text app_host app_manifest)) =
       [js ''// DO NOT EDIT. This file is generated by Fresh.'',
        js ''// This file SHOULD be checked into source version control.'',
        js ''// This file is automatically updated during development when running ''
          @ [96] @ js ''dev.ts'' @ [96] @ js ''.'',
        []]"
    by (simp only: CHAR_NEWLINE_def CHAR_BACKTICK_def)
  moreover from t have "foldl (\<lambda>n d. 10 * n + (unat d - 48)) 0 (decimal 12) = 12"
    by (elim conjE)
  moreover from t have "hd (decimal 12) \<noteq> 48"
    by simp
  moreover from s have "length (decimal 7) = 1"
    by simp
  moreover from t f w have "fst (generate app_host (js ''/app'') app_manifest world0) = Inr ()"
    by blast
  moreover from t f w have "files (snd (generate app_host (js ''/app'') app_manifest world0))
       = (files world0)(join app_host (js ''/app'') (js ''./fresh.gen.ts'')
            \<mapsto> output_text app_host app_manifest)"
    by blast
  moreover from t f w
  have "events_since world0 (snd (generate app_host (js ''/app'') app_manifest world0)) =
       [Spawn, PipeTo (output_text app_host app_manifest), ReadOutput,
        WriteTextFile (join app_host (js ''/app'') (js ''./fresh.gen.ts''))
          (output_text app_host app_manifest),
        ConsoleLog (generated_message app_manifest)]"
    by blast
  ultimately show ?thesis
    using app_output d by (simp add: world0_def)
qed

text \<open>
  Two runs in which the registry file does not receive the rendered text. For the
  manifest without routes and islands the template renders two objects that hold only
  white space and a run of empty lines; \<open>formatting_host\<close> is a host whose formatter
  prints for that text what \<^verbatim>\<open>deno fmt\<close> makes of it, two empty objects \<^verbatim>\<open>{}\<close> and single
  empty lines, and this is what the file holds. On the host whose formatter prints
  nothing the file is empty.
\<close>

definition formatted_empty_registry :: jsstring where
  "formatted_empty_registry =
     js ''// DO NOT EDIT. This file is generated by Fresh.'' @ [10]
     @ js ''// This file SHOULD be checked into source version control.'' @ [10]
     @ js ''// This file is automatically updated during development when running ''
     @ [96] @ js ''dev.ts'' @ [96] @ js ''.'' @ [10, 10]
     @ js ''const manifest = {'' @ [10]
     @ js ''  routes: {},'' @ [10]
     @ js ''  islands: {},'' @ [10]
     @ js ''  baseUrl: import.meta.url,'' @ [10]
     @ js ''};'' @ [10, 10]
     @ js ''export default manifest;'' @ [10]"

definition formatting_host :: host where
  "formatting_host =
     app_host\<lparr>formatter := \<lambda>text.
        if text = output_text app_host \<lparr>routes = [], islands = []\<rparr>
        then Exited 0 formatted_empty_registry else Exited 0 text\<rparr>"

lemma empty_output:
  "output_text app_host \<lparr>routes = [], islands = []\<rparr> =
     js ''// DO NOT EDIT. This file is generated by Fresh.'' @ [10]
     @ js ''// This file SHOULD be checked into source version control.'' @ [10]
     @ js ''// This file is automatically updated during development when running ''
     @ [96] @ js ''dev.ts'' @ [96] @ js ''.'' @ [10, 10]
     @ [10, 10, 10]
     @ js ''const manifest = {'' @ [10]
     @ js ''  routes: {'' @ [10]
     @ js ''    '' @ [10]
     @ js ''  },'' @ [10]
     @ js ''  islands: {'' @ [10]
     @ js ''    '' @ [10]
     @ js ''  },'' @ [10]
     @ js ''  baseUrl: import.meta.url,'' @ [10]
     @ js ''};'' @ [10, 10]
     @ js ''export default manifest;'' @ [10]"
  by (simp add: output_text_def header_def CHAR_NEWLINE_def CHAR_BACKTICK_def)

lemma output_text_join: "join h = join h' \<Longrightarrow> output_text h m = output_text h' m"
  by (simp add: output_text_def map_index_eq_map route_import_def island_import_def
      route_entry_def island_entry_def)

lemma formatting_host_fields:
  "join formatting_host = join app_host"
  "writeTextFile formatting_host p t = None"
  "formatter formatting_host (output_text app_host \<lparr>routes = [], islands = []\<rparr>)
   = Exited 0 formatted_empty_registry"
  by (simp_all add: formatting_host_def app_host_def)

theorem registry_not_rendered_counterexample:
  "output_text formatting_host \<lparr>routes = [], islands = []\<rparr> =
     js ''// DO NOT EDIT. This file is generated by Fresh.'' @ [10]
     @ js ''// This file SHOULD be checked into source version control.'' @ [10]
     @ js ''// This file is automatically updated during development when running ''
     @ [96] @ js ''dev.ts'' @ [96] @ js ''.'' @ [10, 10]
     @ [10, 10, 10]
     @ js ''const manifest = {'' @ [10]
     @ js ''  routes: {'' @ [10]
     @ js ''    '' @ [10]
     @ js ''  },'' @ [10]
     @ js ''  islands: {'' @ [10]
     @ js ''    '' @ [10]
     @ js ''  },'' @ [10]
     @ js ''  baseUrl: import.meta.url,'' @ [10]
     @ js ''};'' @ [10, 10]
     @ js ''export default manifest;'' @ [10]
   \<and> fst (generate formatting_host (js ''/app'') \<lparr>routes = [], islands = []\<rparr> world0) = Inr ()
   \<and> files (snd (generate formatting_host (js ''/app'') \<lparr>routes = [], islands = []\<rparr> world0))
        (js ''/app/fresh.gen.ts'') = Some formatted_empty_registry
   \<and> formatted_empty_registry \<noteq> output_text formatting_host \<lparr>routes = [], islands = []\<rparr>
   \<and> fst (generate failing_formatter_host (js ''/app'') app_manifest world0) = Inr ()
   \<and> files (snd (generate failing_formatter_host (js ''/app'') app_manifest world0))
        (js ''/app/fresh.gen.ts'') = Some []
   \<and> output_text failing_formatter_host app_manifest \<noteq> []"
proof -
  let ?m = "\<lparr>routes = [], islands = []\<rparr>"
  have o: "output_text formatting_host ?m = output_text app_host ?m"
    by (rule output_text_join) (simp add: formatting_host_fields)
  have f: "formatter formatting_host (output_text formatting_host ?m)
           = Exited 0 formatted_empty_registry"
    by (simp only: o formatting_host_fields)
  have g: "generate formatting_host (js ''/app'') ?m world0 =
     (Inr (),
      world0\<lparr>files := (files world0)(js ''/app/fresh.gen.ts'' \<mapsto> formatted_empty_registry),
        trace := trace world0
          @ [Spawn, PipeTo (output_text formatting_host ?m), ReadOutput,
             WriteTextFile (js ''/app/fresh.gen.ts'') formatted_empty_registry,
             ConsoleLog (generated_message ?m)]\<rparr>)"
    using generate_exited [OF f, of "js ''/app''" world0]
    by (simp add: formatting_host_fields)
  have n: "formatted_empty_registry \<noteq> output_text app_host ?m"
    unfolding empty_output formatted_empty_registry_def by (simp add: js_def)
  have h: "generate failing_formatter_host (js ''/app'') app_manifest world0 =
     (Inr (),
      world0\<lparr>files := (files world0)(js ''/app/fresh.gen.ts'' \<mapsto> []),
        trace := trace world0
          @ [Spawn, PipeTo (output_text failing_formatter_host app_manifest), ReadOutput,
             WriteTextFile (js ''/app/fresh.gen.ts'') [],
             ConsoleLog (generated_message app_manifest)]\<rparr>)"
    using generate_exited [of failing_formatter_host app_manifest 1 "[]" "js ''/app''" world0]
    by simp
  have e: "output_text failing_formatter_host app_manifest \<noteq> []"
    by (simp add: output_text_def header_def js_def)
  show ?thesis
    using n e by (simp add: o g h empty_output)
qed

text \<open>
  The states of the environment variable on which the coordinator is run: absent
  (\<open>world0\<close>), as the first cycle left it (\<open>world1\<close>), the same manifest written with the
  members in the other order and with white space, and the object without members.
\<close>

definition world_reordered :: world where
  "world_reordered =
     world0\<lparr>FRSH_DEV_PREVIOUS_MANIFEST :=
       Some (js ''{ \"islands\": [\"Counter.tsx\"], \"routes\": [\"about.tsx\", \"index.tsx\"] }'')\<rparr>"

definition world_empty_object :: world where
  "world_empty_object = world0\<lparr>FRSH_DEV_PREVIOUS_MANIFEST := Some (js ''{}'')\<rparr>"

lemmas json_eval =
  JSON_parse_def tokenize.simps emit_def is_whitespace_def is_digit_def startsWith_def
  js_def CHAR_QUOTE_def CHAR_BACKWARD_SLASH_def value_start_def unescape_def

lemma world0_previous:
  "previous_manifest (FRSH_DEV_PREVIOUS_MANIFEST world0)
   = Inr (JObject [(js ''islands'', JArray []), (js ''routes'', JArray [])])"
  by (simp add: world0_def previous_manifest_def)

lemma world1_previous:
  "previous_manifest (FRSH_DEV_PREVIOUS_MANIFEST world1) = Inr (manifest_json app_manifest)"
  using dev_effects [OF app_version world0_previous app_collect, of "js ''file:///app/main.ts''"]
  by (auto simp: world1_def previous_manifest_stringify)

lemma world_reordered_previous:
  "previous_manifest (FRSH_DEV_PREVIOUS_MANIFEST world_reordered)
   = Inr (JObject [(js ''islands'', JArray [JString (js ''Counter.tsx'')]),
                   (js ''routes'', JArray [JString (js ''about.tsx''), JString (js ''index.tsx'')])])"
  by (simp add: world_reordered_def world0_def previous_manifest_def json_eval)

lemma world_empty_object_previous:
  "previous_manifest (FRSH_DEV_PREVIOUS_MANIFEST world_empty_object) = Inr (JObject [])"
  by (simp add: world_empty_object_def world0_def previous_manifest_def json_eval)

lemma reordered_properties:
  "named_property (JObject [(js ''islands'', JArray [JString (js ''Counter.tsx'')]),
       (js ''routes'', JArray [JString (js ''about.tsx''), JString (js ''index.tsx'')])])
     (js ''routes'') = Inr (Some (JArray [JString (js ''about.tsx''), JString (js ''index.tsx'')]))"
  "named_property (JObject [(js ''islands'', JArray [JString (js ''Counter.tsx'')]),
       (js ''routes'', JArray [JString (js ''about.tsx''), JString (js ''index.tsx'')])])
     (js ''islands'') = Inr (Some (JArray [JString (js ''Counter.tsx'')]))"
  by (simp_all add: named_property_def lookup_def js_def)

lemma clash_collect: "isl (collect app_host (js ''/clash''))"
proof -
  have j: "join app_host (js ''/clash'') (js ''./routes'') = js ''/clash/routes''"
    "join app_host (js ''/clash'') (js ''./islands'') = js ''/clash/islands''"
    by (simp_all add: app_host_def posix_join_def normalize_eval char_eval)
  have "isl (collectDir app_host (js ''/clash/routes''))"
    by (simp add: host_eval char_eval)
  then show ?thesis
    unfolding collect_def j by (auto split: sum.splits)
qed

text \<open>
  The snapshot \<^verbatim>\<open>{}\<close>: the project \<^verbatim>\<open>/app\<close> has two routes and one island, which the
  snapshot does not have, and the cycle ends with a \<open>TypeError\<close> without running the
  generator.
\<close>

theorem dev_regenerates_counterexample:
  "FRSH_DEV_PREVIOUS_MANIFEST world_empty_object = Some (js ''{}'')
   \<and> JSON_parse (js ''{}'') = Inr (JObject [])
   \<and> ensureMinDenoVersion app_host = Inr ()
   \<and> collect app_host (js ''/app'') = Inr app_manifest
   \<and> routes app_manifest = [js ''about.tsx'', js ''index.tsx'']
   \<and> named_property (JObject []) (js ''routes'') = Inr None
   \<and> JObject [] \<noteq> manifest_json app_manifest
   \<and> fst (dev app_host (js ''/app'') (js ''file:///app/main.ts'') world_empty_object) = Inl TypeError
   \<and> Spawn \<notin> set (events_since world_empty_object
         (snd (dev app_host (js ''/app'') (js ''file:///app/main.ts'') world_empty_object)))"
proof -
  have p: "named_property (JObject []) (js ''routes'') = Inr None"
    by (simp add: named_property_def lookup_def)
  have c: "manifestChanged app_manifest (JObject []) = Inl TypeError"
    by (rule manifestChanged_no_routes [OF p])
  obtain es where es:
    "trace (snd (dev app_host (js ''/app'') (js ''file:///app/main.ts'') world_empty_object))
       = trace world_empty_object @ [EnvGet, Stat (join app_host (js ''/app'') (js ''./routes'')),
            Stat (join app_host (js ''/app'') (js ''./islands'')),
            EnvSet (JSON_stringify_manifest app_manifest)] @ es"
    "(Spawn \<in> set es) = (manifestChanged app_manifest (JObject []) = Inr True)"
    "\<forall>e. manifestChanged app_manifest (JObject []) = Inl e
       \<longrightarrow> fst (dev app_host (js ''/app'') (js ''file:///app/main.ts'') world_empty_object) = Inl e"
    using dev_effects [OF app_version world_empty_object_previous app_collect,
        of "js ''file:///app/main.ts''"]
    by blast
  have s: "Spawn \<notin> set (events_since world_empty_object
         (snd (dev app_host (js ''/app'') (js ''file:///app/main.ts'') world_empty_object)))"
    using es(2) c by (simp add: events_since_def es(1))
  have t: "fst (dev app_host (js ''/app'') (js ''file:///app/main.ts'') world_empty_object)
           = Inl TypeError"
    using es(3) c by simp
  have j: "JSON_parse (js ''{}'') = Inr (JObject [])"
    by (simp add: json_eval)
  show ?thesis
    using s t j p app_version app_collect
    by (simp add: world_empty_object_def manifest_json_def app_manifest_def)
qed

theorem dev_regenerates_iff_changed_witness:
  "Spawn \<in> set (events_since world0 (snd (dev app_host (js ''/app'') (js ''file:///app/main.ts'') world0)))
   \<and> Spawn \<notin> set (events_since world1 (snd (dev app_host (js ''/app'') (js ''file:///app/main.ts'') world1)))
   \<and> files (snd (dev app_host (js ''/app'') (js ''file:///app/main.ts'') world1)) = files world1
   \<and> Spawn \<notin> set (events_since world_reordered
         (snd (dev app_host (js ''/app'') (js ''file:///app/main.ts'') world_reordered)))
   \<and> files (snd (dev app_host (js ''/app'') (js ''file:///app/main.ts'') world_reordered))
       = files world_reordered
   \<and> files (snd (dev app_host (js ''/clash'') (js ''file:///clash/main.ts'') world1)) = files world1
   \<and> fst (dev app_host (js ''/app'') (js ''file:///app/main.ts'') world_empty_object) = Inl TypeError
   \<and> FRSH_DEV_PREVIOUS_MANIFEST
        (snd (dev app_host (js ''/app'') (js ''file:///app/main.ts'') world_empty_object))
       = Some (JSON_stringify_manifest app_manifest)
   \<and> arraysEqual [js ''a.ts''] (Some (JArray [JString (js ''a.ts'')])) = Inr True
   \<and> arraysEqual [js ''a.ts''] (Some (JArray [JString (js ''a.ts''), JString (js ''b.ts'')]))
       = Inr False"
proof -
  let ?ep = "js ''file:///app/main.ts''"
  note first = dev_regenerates_iff_changed [where h = app_host and w = world0
      and cur = "JObject [(js ''islands'', JArray []), (js ''routes'', JArray [])]"
      and rs = "[]" and ils = "[]" and dir = "js ''/app''" and new = app_manifest and ep = ?ep
      and xs = "[js ''a.ts'']" and ys = "[JString (js ''a.ts'')]"]
  note second = dev_regenerates_iff_changed [where h = app_host and w = world1
      and cur = "manifest_json app_manifest"
      and rs = "map JString (routes app_manifest)" and ils = "map JString (islands app_manifest)"
      and dir = "js ''/app''" and new = app_manifest and ep = ?ep
      and xs = "[js ''a.ts'']" and ys = "[JString (js ''a.ts''), JString (js ''b.ts'')]"]
  note third = dev_regenerates_iff_changed [where h = app_host and w = world_reordered
      and cur = "JObject [(js ''islands'', JArray [JString (js ''Counter.tsx'')]),
                   (js ''routes'', JArray [JString (js ''about.tsx''), JString (js ''index.tsx'')])]"
      and rs = "[JString (js ''about.tsx''), JString (js ''index.tsx'')]"
      and ils = "[JString (js ''Counter.tsx'')]"
      and dir = "js ''/app''" and new = app_manifest and ep = ?ep
      and xs = "[]" and ys = "[]"]
  note fourth = dev_regenerates_iff_changed [where h = app_host and w = world1
      and cur = "manifest_json app_manifest" and rs = "[]" and ils = "[]"
      and dir = "js ''/clash''" and new = app_manifest and ep = "js ''file:///clash/main.ts''"
      and xs = "[]" and ys = "[]"]
  note fifth = dev_regenerates_iff_changed [where h = app_host and w = world_empty_object
      and cur = "JObject []" and rs = "[]" and ils = "[]"
      and dir = "js ''/app''" and new = app_manifest and ep = ?ep
      and xs = "[]" and ys = "[]"]
  have n: "map JString (routes app_manifest) \<noteq> []"
    by (simp add: app_manifest_def)
  have r: "map JString (routes app_manifest)
           = [JString (js ''about.tsx''), JString (js ''index.tsx'')]"
    "map JString (islands app_manifest) = [JString (js ''Counter.tsx'')]"
    by (simp_all add: app_manifest_def)
  have p: "named_property (JObject []) (js ''routes'') = Inr None"
    by (simp add: named_property_def lookup_def)
  from first n app_version world0_previous empty_object_properties app_collect
  have "Spawn \<in> set (events_since world0 (snd (dev app_host (js ''/app'') ?ep world0)))"
    by blast
  moreover from second app_version world1_previous manifest_json_properties app_collect
  have "Spawn \<notin> set (events_since world1 (snd (dev app_host (js ''/app'') ?ep world1)))"
    by blast
  moreover from second app_version world1_previous manifest_json_properties app_collect
  have "files (snd (dev app_host (js ''/app'') ?ep world1)) = files world1"
    by blast
  moreover from third r app_version world_reordered_previous reordered_properties app_collect
  have "Spawn \<notin> set (events_since world_reordered
      (snd (dev app_host (js ''/app'') ?ep world_reordered)))"
    by blast
  moreover from third r app_version world_reordered_previous reordered_properties app_collect
  have "files (snd (dev app_host (js ''/app'') ?ep world_reordered)) = files world_reordered"
    by blast
  moreover from fourth clash_collect
  have "files (snd (dev app_host (js ''/clash'') (js ''file:///clash/main.ts'') world1))
        = files world1"
    by blast
  moreover from fifth p app_version world_empty_object_previous app_collect
  have "fst (dev app_host (js ''/app'') ?ep world_empty_object) = Inl TypeError"
    by blast
  moreover from fifth p app_version world_empty_object_previous app_collect
  have "FRSH_DEV_PREVIOUS_MANIFEST (snd (dev app_host (js ''/app'') ?ep world_empty_object))
        = Some (JSON_stringify_manifest app_manifest)"
    by blast
  moreover from first
  have "arraysEqual [js ''a.ts''] (Some (JArray [JString (js ''a.ts'')])) = Inr True"
    by simp
  moreover from second
  have "arraysEqual [js ''a.ts''] (Some (JArray [JString (js ''a.ts''), JString (js ''b.ts'')]))
        = Inr False"
    by simp
  ultimately show ?thesis
    by (intro conjI)
qed


end
